theory Spec2Isabelle
  imports Complex_Main
begin

section \<open>Data model (src/types.ts, src/App.tsx)\<close>

text \<open>
  \<^verbatim>\<open>interface RGB { r: number; g: number; b: number; }\<close> and
  \<^verbatim>\<open>interface PixelData { r; g; b; hex: string }\<close>.
  A channel that comes from a \<^verbatim>\<open>Uint8ClampedArray\<close>, from \<^verbatim>\<open>parseInt\<close> on two
  hexadecimal digits or from \<^verbatim>\<open>Math.round\<close> of a finite value is an integer: such a colour
  is an \<open>int RGB\<close>. The quantizer's means can also be \<^verbatim>\<open>NaN\<close>: its results are
  \<open>number RGB\<close>. A \<open>PixelData\<close> is an \<open>int RGB\<close> with one more field, as in TypeScript's
  structural typing: a function that takes \<^verbatim>\<open>{r, g, b}\<close> takes an \<open>(int, 'a) RGB_scheme\<close>.
\<close>

datatype number = NaN | Num int

record 'n RGB =
  r :: 'n
  g :: 'n
  b :: 'n

record PixelData = "int RGB" +
  hex :: string

definition channel_ok :: "int \<Rightarrow> bool" where
  "channel_ok v \<longleftrightarrow> 0 \<le> v \<and> v \<le> 255"

definition color_ok :: "(int, 'a) RGB_scheme \<Rightarrow> bool" where
  "color_ok c \<longleftrightarrow> channel_ok (r c) \<and> channel_ok (g c) \<and> channel_ok (b c)"

section \<open>JavaScript number operations used by the colour helpers\<close>

text \<open>\<^verbatim>\<open>ToInt32\<close>: the operand of a shift is reduced modulo \<open>2^32\<close> into the signed range.\<close>

definition toInt32 :: "int \<Rightarrow> int" where
  "toInt32 v = (let m = v mod 2 ^ 32 in if 2 ^ 31 \<le> m then m - 2 ^ 32 else m)"

text \<open>A non-integral operand is truncated toward zero first.\<close>

definition jsTrunc :: "real \<Rightarrow> int" where
  "jsTrunc x = (if 0 \<le> x then \<lfloor>x\<rfloor> else \<lceil>x\<rceil>)"

text \<open>\<^verbatim>\<open>x >> 8\<close>: sign-propagating shift of the 32-bit value.\<close>

definition shiftRight8 :: "real \<Rightarrow> int" where
  "shiftRight8 x = toInt32 (jsTrunc x) div 256"

text \<open>\<^verbatim>\<open>x << k\<close> on an integer operand.\<close>

definition shiftLeft :: "int \<Rightarrow> nat \<Rightarrow> int" where
  "shiftLeft v k = toInt32 (toInt32 v * 2 ^ k)"

text \<open>
  A sum, a difference, a product or a quotient of two numbers is the double nearest to
  the exact result, a tie going to the even significand: \<open>toDouble\<close> of the exact result.
  A double is a multiple of \<open>2 ^ (e - 52)\<close>, where \<open>e\<close> is the binary exponent of the value
  and at least \<open>-1022\<close>. (Results of magnitude \<open>2 ^ 1024\<close> and more, which become infinite,
  do not occur in what follows.)
\<close>

definition roundTiesToEven :: "real \<Rightarrow> int" where
  "roundTiesToEven x =
     (let f = \<lfloor>x\<rfloor>; d = x - of_int f in
      if d < 1 / 2 then f else if 1 / 2 < d then f + 1 else if even f then f else f + 1)"

definition toDouble :: "real \<Rightarrow> real" where
  "toDouble x =
     (if x = 0 then 0
      else (let e = max \<lfloor>log 2 \<bar>x\<bar>\<rfloor> (- 1022);
                q = 2 powr (of_int e - 52)
            in q * of_int (roundTiesToEven (x / q))))"

text \<open>\<^verbatim>\<open>Math.round\<close>: the nearest integer, a tie going up.\<close>

definition mathRound :: "real \<Rightarrow> int" where
  "mathRound x = \<lfloor>x + 1 / 2\<rfloor>"

text \<open>\<^verbatim>\<open>Number.prototype.toString(16)\<close> on an integer: lower-case digits, a minus sign first.\<close>

definition digitChar :: "nat \<Rightarrow> char" where
  "digitChar d = ''0123456789abcdef'' ! d"

fun hexDigits :: "nat \<Rightarrow> string" where
  "hexDigits n = (if n < 16 then [digitChar n] else hexDigits (n div 16) @ [digitChar (n mod 16)])"

declare hexDigits.simps [simp del]

definition toString16 :: "int \<Rightarrow> string" where
  "toString16 v = (if v < 0 then CHR ''-'' # hexDigits (nat (- v)) else hexDigits (nat v))"

section \<open>Colour helpers (src/App.tsx, src/components/GridCanvas.tsx)\<close>

subsection \<open>rgbToHex\<close>

text \<open>
  \<^verbatim>\<open>"#" + ((1 << 24) + (r << 16) + (g << 8) + b).toString(16).slice(1)\<close>.
  The shifts are 32-bit, the additions are not.
\<close>

definition rgbToHex :: "int \<Rightarrow> int \<Rightarrow> int \<Rightarrow> string" where
  "rgbToHex cr cg cb =
     CHR ''#'' # drop 1 (toString16 (shiftLeft 1 24 + shiftLeft cr 16 + shiftLeft cg 8 + cb))"

subsection \<open>hexToRgb\<close>

text \<open>
  The regular expression \<^verbatim>\<open>/^#?([a-f\d]{2})([a-f\d]{2})([a-f\d]{2})$/i\<close> is a sequence of
  an optional character and three capture groups, each a fixed number of characters of
  one class, anchored at both ends of the input. \<open>exec\<close> returns the captures of a match.
\<close>

datatype regexItem = Optional char | Group "char \<Rightarrow> bool" nat

fun exec :: "regexItem list \<Rightarrow> string \<Rightarrow> string list option" where
  "exec [] s = (if s = [] then Some [] else None)"
| "exec (Optional c # items) s =
     (case (case s of [] \<Rightarrow> None | x # xs \<Rightarrow> if x = c then exec items xs else None) of
        Some caps \<Rightarrow> Some caps
      | None \<Rightarrow> exec items s)"
| "exec (Group cls n # items) s =
     (if n \<le> length s \<and> list_all cls (take n s)
      then map_option ((#) (take n s)) (exec items (drop n s))
      else None)"

text \<open>
  Under the \<^verbatim>\<open>i\<close> flag a character is compared after both sides are put in upper case:
  the class \<^verbatim>\<open>[a-f\d]\<close> then holds \<^verbatim>\<open>A\<close> to \<^verbatim>\<open>F\<close> and the decimal digits.
\<close>

definition canonicalize :: "char \<Rightarrow> char" where
  "canonicalize c =
     (let n = (of_char c :: nat) in if 97 \<le> n \<and> n \<le> 122 then char_of (n - 32) else c)"

definition hexClass :: "char \<Rightarrow> bool" where
  "hexClass c =
     (let n = (of_char (canonicalize c) :: nat) in (65 \<le> n \<and> n \<le> 70) \<or> (48 \<le> n \<and> n \<le> 57))"

definition hexPattern :: "regexItem list" where
  "hexPattern = [Optional CHR ''#'', Group hexClass 2, Group hexClass 2, Group hexClass 2]"

text \<open>
  \<^verbatim>\<open>parseInt(s, 16)\<close> reads the longest prefix of hexadecimal digits; with no digit at all
  it gives \<^verbatim>\<open>NaN\<close>, here \<open>None\<close>. (Leading blanks, a sign and a \<^verbatim>\<open>0x\<close> prefix, which
  \<^verbatim>\<open>parseInt\<close> also accepts, cannot occur in a capture of the pattern.)
\<close>

definition digitValue :: "char \<Rightarrow> int option" where
  "digitValue c =
     (let n = (of_char (canonicalize c) :: nat) in
      if 48 \<le> n \<and> n \<le> 57 then Some (int n - 48)
      else if 65 \<le> n \<and> n \<le> 70 then Some (int n - 55)
      else None)"

definition parseInt16 :: "string \<Rightarrow> int option" where
  "parseInt16 s =
     (let ds = takeWhile (\<lambda>c. digitValue c \<noteq> None) s in
      if ds = [] then None
      else Some (foldl (\<lambda>acc c. 16 * acc + the (digitValue c)) 0 ds))"

definition hexToRgb :: "string \<Rightarrow> int RGB option" where
  "hexToRgb s =
     (case exec hexPattern s of
        Some [c1, c2, c3] \<Rightarrow>
          (case (parseInt16 c1, parseInt16 c2, parseInt16 c3) of
             (Some v1, Some v2, Some v3) \<Rightarrow> Some \<lparr>r = v1, g = v2, b = v3\<rparr>
           | _ \<Rightarrow> None)
      | _ \<Rightarrow> None)"

subsection \<open>getColorDistance\<close>

text \<open>
  \<^verbatim>\<open>Math.sqrt((((512 + rmean) * r * r) >> 8) + 4 * g * g + (((767 - rmean) * b * b) >> 8))\<close>
  with \<^verbatim>\<open>rmean = (c1.r + c2.r) / 2\<close>, a multiple of one half: every value up to the
  shifts is a small multiple of one half, which double arithmetic gives exactly. The operand of
  \<^verbatim>\<open>Math.sqrt\<close> is an integer, and \<^verbatim>\<open>Math.sqrt\<close> returns the double nearest to its square root.
\<close>

definition distanceRadicand :: "(int, 'a) RGB_scheme \<Rightarrow> (int, 'b) RGB_scheme \<Rightarrow> int" where
  "distanceRadicand c1 c2 =
     (let rmean = (real_of_int (r c1) + real_of_int (r c2)) / 2;
          dr = r c1 - r c2;
          dg = g c1 - g c2;
          db = b c1 - b c2
      in shiftRight8 ((512 + rmean) * real_of_int dr * real_of_int dr)
         + 4 * dg * dg
         + shiftRight8 ((767 - rmean) * real_of_int db * real_of_int db))"

definition getColorDistance :: "(int, 'a) RGB_scheme \<Rightarrow> (int, 'b) RGB_scheme \<Rightarrow> real" where
  "getColorDistance c1 c2 = toDouble (sqrt (real_of_int (distanceRadicand c1 c2)))"

subsection \<open>blendColors\<close>

text \<open>
  \<^verbatim>\<open>if (alpha >= 1) return fg;\<close> then, per channel,
  \<^verbatim>\<open>Math.round(bg.r * (1 - alpha) + fg.r * alpha)\<close>, each operation in double arithmetic.
  The opacity is a double (the interface passes one of 0.1, 0.2, ..., 1).
\<close>

definition blendColors :: "(int, 'a) RGB_scheme \<Rightarrow> int RGB \<Rightarrow> real \<Rightarrow> int RGB" where
  "blendColors bg fg alpha =
     (if alpha \<ge> 1 then fg
      else \<lparr>r = mathRound (toDouble (toDouble (real_of_int (r bg) * toDouble (1 - alpha))
                                   + toDouble (real_of_int (r fg) * alpha))),
            g = mathRound (toDouble (toDouble (real_of_int (g bg) * toDouble (1 - alpha))
                                   + toDouble (real_of_int (g fg) * alpha))),
            b = mathRound (toDouble (toDouble (real_of_int (b bg) * toDouble (1 - alpha))
                                   + toDouble (real_of_int (b fg) * alpha)))\<rparr>)"

section \<open>Palette editing (src/App.tsx)\<close>

record GridConfig =
  rows :: int
  cols :: int
  showGrid :: bool
  showNumbers :: bool
  contrast :: real
  usePalette :: bool
  palette :: "string list"

text \<open>\<^verbatim>\<open>xs.filter((v, i) => p(v, i))\<close>: the callback also receives the index.\<close>

definition filterIndexed :: "('a \<Rightarrow> nat \<Rightarrow> bool) \<Rightarrow> 'a list \<Rightarrow> 'a list" where
  "filterIndexed p xs = map fst (filter (\<lambda>(v, i). p v i) (zip xs [0..<length xs]))"

definition removeColorFromPalette :: "GridConfig \<Rightarrow> int \<Rightarrow> GridConfig" where
  "removeColorFromPalette gridConfig idx =
     (if length (palette gridConfig) \<le> 2 then gridConfig
      else gridConfig\<lparr>palette := filterIndexed (\<lambda>_ i. int i \<noteq> idx) (palette gridConfig)\<rparr>)"

section \<open>Palette mapping (processImage in src/App.tsx)\<close>

text \<open>
  \<^verbatim>\<open>palette.map(hex => ({ hex, ...hexToRgb(hex)! })).filter(c => c.r !== undefined)\<close>:
  an entry that does not parse has no \<^verbatim>\<open>r\<close> and is dropped; the others keep the
  palette's own string as \<open>hex\<close>. Without palette mode the list is empty.
\<close>

definition paletteRgb :: "bool \<Rightarrow> string list \<Rightarrow> PixelData list" where
  "paletteRgb usePal pal =
     (if usePal
      then List.map_filter
             (\<lambda>h. map_option (\<lambda>c. \<lparr>r = r c, g = g c, b = b c, hex = h\<rparr>) (hexToRgb h)) pal
      else [])"




section \<open>Median cut quantization (src/App.tsx)\<close>

subsection \<open>findBiggestRange\<close>

datatype component = CompR | CompG | CompB

definition channel :: "component \<Rightarrow> (int, 'a) RGB_scheme \<Rightarrow> int" where
  "channel axis p = (case axis of CompR \<Rightarrow> r p | CompG \<Rightarrow> g p | CompB \<Rightarrow> b p)"

text \<open>
  The six running variables \<^verbatim>\<open>minR, maxR, minG, maxG, minB, maxB\<close> of the loop, which
  start at \<^verbatim>\<open>255, 0, 255, 0, 255, 0\<close>.
\<close>

record ranges =
  minR :: int
  maxR :: int
  minG :: int
  maxG :: int
  minB :: int
  maxB :: int

definition rangeStep :: "ranges \<Rightarrow> (int, 'a) RGB_scheme \<Rightarrow> ranges" where
  "rangeStep s p =
     (let s1 = (if r p < minR s then s\<lparr>minR := r p\<rparr> else s);
          s2 = (if r p > maxR s1 then s1\<lparr>maxR := r p\<rparr> else s1);
          s3 = (if g p < minG s2 then s2\<lparr>minG := g p\<rparr> else s2);
          s4 = (if g p > maxG s3 then s3\<lparr>maxG := g p\<rparr> else s3);
          s5 = (if b p < minB s4 then s4\<lparr>minB := b p\<rparr> else s4);
          s6 = (if b p > maxB s5 then s5\<lparr>maxB := b p\<rparr> else s5)
      in s6)"

definition findBiggestRange :: "(int, 'a) RGB_scheme list \<Rightarrow> component" where
  "findBiggestRange pixels =
     (let s = foldl rangeStep \<lparr>minR = 255, maxR = 0, minG = 255, maxG = 0, minB = 255, maxB = 0\<rparr> pixels;
          rRange = maxR s - minR s;
          gRange = maxG s - minG s;
          bRange = maxB s - minB s
      in if rRange \<ge> gRange \<and> rRange \<ge> bRange then CompR
         else if gRange \<ge> rRange \<and> gRange \<ge> bRange then CompG
         else CompB)"

subsection \<open>medianCutQuantization\<close>

text \<open>
  \<^verbatim>\<open>Math.round(pixels.reduce((a, b) => a + b.r, 0) / pixels.length)\<close>: for an empty list the
  quotient is \<^verbatim>\<open>0 / 0\<close>, which is \<^verbatim>\<open>NaN\<close>, and \<^verbatim>\<open>Math.round(NaN)\<close> is \<^verbatim>\<open>NaN\<close>.
\<close>

definition roundedMean :: "((int, 'a) RGB_scheme \<Rightarrow> int) \<Rightarrow> (int, 'a) RGB_scheme list \<Rightarrow> number" where
  "roundedMean chan pixels =
     (if length pixels = 0 then NaN
      else Num (mathRound
                  (toDouble (real_of_int (foldl (\<lambda>a p. a + chan p) 0 pixels) / real (length pixels)))))"

text \<open>
  \<^verbatim>\<open>pixels.sort((a, b) => a[component] - b[component])\<close> is a stable sort on the chosen
  channel; \<^verbatim>\<open>slice(0, mid)\<close> and \<^verbatim>\<open>slice(mid)\<close> are \<open>take\<close> and \<open>drop\<close>.
\<close>

fun medianCutQuantization :: "(int, 'a) RGB_scheme list \<Rightarrow> nat \<Rightarrow> number RGB list" where
  "medianCutQuantization pixels 0 =
     [\<lparr>r = roundedMean r pixels, g = roundedMean g pixels, b = roundedMean b pixels\<rparr>]"
| "medianCutQuantization pixels (Suc depth) =
     (if length pixels = 0
      then [\<lparr>r = roundedMean r pixels, g = roundedMean g pixels, b = roundedMean b pixels\<rparr>]
      else (let component = findBiggestRange pixels;
                sorted = sort_key (channel component) pixels;
                mid = length sorted div 2
            in medianCutQuantization (take mid sorted) depth
               @ medianCutQuantization (drop mid sorted) depth))"

subsection \<open>extractPaletteFromImage: the hex strings of the quantized colours, without repeats\<close>

text \<open>
  \<^verbatim>\<open>rgbToHex\<close> on arguments that may be \<^verbatim>\<open>NaN\<close>: a shift takes \<^verbatim>\<open>NaN\<close> to 0, a sum with
  \<^verbatim>\<open>NaN\<close> is \<^verbatim>\<open>NaN\<close>, and \<^verbatim>\<open>NaN.toString(16)\<close> is the string \<^verbatim>\<open>NaN\<close>.
\<close>

definition shiftLeftNumber :: "number \<Rightarrow> nat \<Rightarrow> int" where
  "shiftLeftNumber x k = (case x of NaN \<Rightarrow> 0 | Num v \<Rightarrow> shiftLeft v k)"

definition plusNumber :: "int \<Rightarrow> number \<Rightarrow> number" where
  "plusNumber a x = (case x of NaN \<Rightarrow> NaN | Num v \<Rightarrow> Num (a + v))"

definition toString16Number :: "number \<Rightarrow> string" where
  "toString16Number x = (case x of NaN \<Rightarrow> ''NaN'' | Num v \<Rightarrow> toString16 v)"

definition rgbToHexNumber :: "number \<Rightarrow> number \<Rightarrow> number \<Rightarrow> string" where
  "rgbToHexNumber cr cg cb =
     CHR ''#'' # drop 1 (toString16Number
        (plusNumber (shiftLeft 1 24 + shiftLeftNumber cr 16 + shiftLeftNumber cg 8) cb))"

text \<open>\<^verbatim>\<open>[...new Set(xs)]\<close>: the elements in the order of their first occurrence.\<close>

definition uniqueInOrder :: "'a list \<Rightarrow> 'a list" where
  "uniqueInOrder xs = foldl (\<lambda>seen x. if x \<in> set seen then seen else seen @ [x]) [] xs"

text \<open>
  \<^verbatim>\<open>quantizedColors = medianCutQuantization(pixels, 4)\<close>, then
  \<^verbatim>\<open>uniqueColors = [...new Set(quantizedColors.map(c => rgbToHex(c.r, c.g, c.b)))]\<close>.
  \<open>quantizedPalette\<close> is the same at any depth.
\<close>

definition quantizedPalette :: "(int, 'a) RGB_scheme list \<Rightarrow> nat \<Rightarrow> string list" where
  "quantizedPalette pixels depth =
     uniqueInOrder (map (\<lambda>c. rgbToHexNumber (r c) (g c) (b c)) (medianCutQuantization pixels depth))"

definition extractPaletteFromImage :: "(int, 'a) RGB_scheme list \<Rightarrow> string list" where
  "extractPaletteFromImage pixels = quantizedPalette pixels 4"

section \<open>Painting (handleDraw in src/components/GridCanvas.tsx)\<close>

datatype ToolType = ToolNone | Brush | Eraser | Dropper

datatype eventType = MouseDown | MouseMove | Click

subsection \<open>The store\<close>

text \<open>
  The grid is an array of row arrays of pixel objects, and the updater tells rows and
  grids apart by identity (\<^verbatim>\<open>newPixels[targetY] === prev[targetY]\<close>, \<^verbatim>\<open>return prev\<close>).
  Objects therefore live in a store, at references: a pixel object, a row array (of
  references to pixel objects) and a grid array (of references to row arrays).
  \<open>nextRef\<close> is the next unused reference; the three maps are total, and what they hold
  at a reference that was never created is of no account (\<open>gridAllocated\<close> below says
  that a grid holds created references only).
\<close>

type_synonym ref = nat

record store =
  pixelObj :: "ref \<Rightarrow> PixelData"
  rowArr :: "ref \<Rightarrow> ref list"
  gridArr :: "ref \<Rightarrow> ref list"
  nextRef :: ref

definition newPixelObj :: "PixelData \<Rightarrow> store \<Rightarrow> ref \<times> store" where
  "newPixelObj px s = (nextRef s, s\<lparr>pixelObj := (pixelObj s)(nextRef s := px), nextRef := Suc (nextRef s)\<rparr>)"

definition newRowArr :: "ref list \<Rightarrow> store \<Rightarrow> ref \<times> store" where
  "newRowArr cells s = (nextRef s, s\<lparr>rowArr := (rowArr s)(nextRef s := cells), nextRef := Suc (nextRef s)\<rparr>)"

definition newGridArr :: "ref list \<Rightarrow> store \<Rightarrow> ref \<times> store" where
  "newGridArr rws s = (nextRef s, s\<lparr>gridArr := (gridArr s)(nextRef s := rws), nextRef := Suc (nextRef s)\<rparr>)"

text \<open>\<^verbatim>\<open>xs[i]\<close>: outside the array the value is \<^verbatim>\<open>undefined\<close>, here \<open>None\<close>.\<close>

definition elemAt :: "'a list \<Rightarrow> int \<Rightarrow> 'a option" where
  "elemAt xs i = (if 0 \<le> i \<and> i < int (length xs) then Some (xs ! nat i) else None)"

text \<open>The pixel references and the pixel values of a grid, row by row.\<close>

definition gridRefs :: "store \<Rightarrow> ref \<Rightarrow> ref list list" where
  "gridRefs s grid = map (rowArr s) (gridArr s grid)"

definition gridValue :: "store \<Rightarrow> ref \<Rightarrow> PixelData list list" where
  "gridValue s grid = map (map (pixelObj s)) (gridRefs s grid)"

subsection \<open>The updater passed to setPixels\<close>

datatype error = TypeError

fun forEach :: "('a \<Rightarrow> 'st \<Rightarrow> error + 'st) \<Rightarrow> 'a list \<Rightarrow> 'st \<Rightarrow> error + 'st" where
  "forEach body [] st = Inr st"
| "forEach body (x # xs) st =
     (case body x st of Inl e \<Rightarrow> Inl e | Inr st' \<Rightarrow> forEach body xs st')"

text \<open>
  \<^verbatim>\<open>if (newPixels[targetY] === prev[targetY]) newPixels[targetY] = [...prev[targetY]];\<close>
  gives the row of \<^verbatim>\<open>newPixels\<close> that the cell is then read from. Spreading
  \<^verbatim>\<open>undefined\<close> throws a TypeError, and so does indexing it.
\<close>

definition ownRow :: "ref \<Rightarrow> ref \<Rightarrow> int \<Rightarrow> store \<Rightarrow> error + ref \<times> store" where
  "ownRow prev newPixels targetY s =
     (if elemAt (gridArr s newPixels) targetY = elemAt (gridArr s prev) targetY
      then (case elemAt (gridArr s prev) targetY of
              None \<Rightarrow> Inl TypeError
            | Some prevRow \<Rightarrow>
                (let (row, s') = newRowArr (rowArr s prevRow) s
                 in Inr (row, s'\<lparr>gridArr := (gridArr s')
                                  (newPixels := (gridArr s' newPixels)[nat targetY := row])\<rparr>)))
      else (case elemAt (gridArr s newPixels) targetY of
              None \<Rightarrow> Inl TypeError
            | Some row \<Rightarrow> Inr (row, s)))"

text \<open>The body of the two loops, for one target cell.\<close>

definition paintTarget ::
  "GridConfig \<Rightarrow> int RGB \<Rightarrow> real \<Rightarrow> ref \<Rightarrow> ref \<Rightarrow> int \<Rightarrow> int \<Rightarrow> store \<times> bool \<Rightarrow> error + store \<times> bool" where
  "paintTarget config paintRgb brushOpacity prev newPixels targetY targetX st =
     (case st of (s, changed) \<Rightarrow>
        if targetY \<ge> 0 \<and> targetY < rows config \<and> targetX \<ge> 0 \<and> targetX < cols config
        then (case ownRow prev newPixels targetY s of
                Inl e \<Rightarrow> Inl e
              | Inr (row, s1) \<Rightarrow>
                  (case elemAt (rowArr s1 row) targetX of
                     None \<Rightarrow> Inr (s1, changed)
                   | Some cur \<Rightarrow>
                       (let currentPixel = pixelObj s1 cur;
                            blended = blendColors currentPixel paintRgb brushOpacity;
                            blendedHex = rgbToHex (r blended) (g blended) (b blended)
                        in if hex currentPixel \<noteq> blendedHex
                           then (let (px, s2) = newPixelObj
                                       \<lparr>r = r blended, g = g blended, b = b blended, hex = blendedHex\<rparr> s1
                                 in Inr (s2\<lparr>rowArr := (rowArr s2)
                                              (row := (rowArr s2 row)[nat targetX := px])\<rparr>, True))
                           else Inr (s1, changed))))
        else Inr (s, changed))"

text \<open>
  \<^verbatim>\<open>setPixels(prev => { const newPixels = [...prev]; let changed = false;
       for (dy ...) for (dx ...) { ... }  return changed ? newPixels : prev; })\<close>
\<close>

definition setPixelsUpdater ::
  "GridConfig \<Rightarrow> int \<Rightarrow> int \<Rightarrow> int \<Rightarrow> int \<Rightarrow> int RGB \<Rightarrow> real \<Rightarrow> ref \<Rightarrow> store \<Rightarrow> error + ref \<times> store" where
  "setPixelsUpdater config mouseY mouseX brushSize offset paintRgb brushOpacity prev s =
     (let (newPixels, s0) = newGridArr (gridArr s prev) s
      in case forEach
                (\<lambda>dy. forEach
                         (\<lambda>dx. paintTarget config paintRgb brushOpacity prev newPixels
                                  (mouseY - offset + dy) (mouseX - offset + dx))
                         [0..brushSize - 1])
                [0..brushSize - 1] (s0, False) of
           Inl e \<Rightarrow> Inl e
         | Inr (s1, changed) \<Rightarrow> Inr (if changed then newPixels else prev, s1))"

subsection \<open>handleDraw\<close>

text \<open>
  \<open>mouseX\<close> and \<open>mouseY\<close> are the cell coordinates that handleDraw computes from the
  pointer position; \<open>pixels\<close> is the current grid. The dropper reports a colour to its
  caller and leaves the grid as it is.
\<close>

definition handleDraw ::
  "GridConfig \<Rightarrow> ToolType \<Rightarrow> string \<Rightarrow> int \<Rightarrow> real \<Rightarrow> bool \<Rightarrow> eventType \<Rightarrow> int \<Rightarrow> int
     \<Rightarrow> ref \<Rightarrow> store \<Rightarrow> error + ref \<times> store" where
  "handleDraw config activeTool brushColor brushSize brushOpacity isDrawing ev mouseX mouseY pixels s =
     (if activeTool = ToolNone \<or> length (gridArr s pixels) = 0 then Inr (pixels, s)
      else if mouseX < 0 \<or> mouseX \<ge> cols config \<or> mouseY < 0 \<or> mouseY \<ge> rows config
      then Inr (pixels, s)
      else if activeTool = Dropper then Inr (pixels, s)
      else if \<not> isDrawing \<and> ev \<noteq> MouseDown \<and> ev \<noteq> Click then Inr (pixels, s)
      else (let paintHex = (if activeTool = Eraser then ''#ffffff'' else brushColor);
                paintRgb = (case hexToRgb paintHex of
                              Some c \<Rightarrow> c
                            | None \<Rightarrow> \<lparr>r = 255, g = 255, b = 255\<rparr>);
                offset = brushSize div 2
            in setPixelsUpdater config mouseY mouseX brushSize offset paintRgb brushOpacity pixels s))"

section \<open>The specification's formulas\<close>

text \<open>
  Section 4.1 of the specification gives the distance in exact real arithmetic:
  \<open>weight_r = (512 + rmean) / 256\<close>, \<open>weight_g = 4\<close>, \<open>weight_b = (767 - rmean) / 256\<close>,
  result \<open>sqrt (weight_r * dr\<^sup>2 + weight_g * dg\<^sup>2 + weight_b * db\<^sup>2)\<close>.
\<close>

definition distance_spec :: "(int, 'a) RGB_scheme \<Rightarrow> (int, 'b) RGB_scheme \<Rightarrow> real" where
  "distance_spec c1 c2 =
     (let rmean = (real_of_int (r c1) + real_of_int (r c2)) / 2;
          dr = real_of_int (r c1 - r c2);
          dg = real_of_int (g c1 - g c2);
          db = real_of_int (b c1 - b c2);
          weight_r = (512 + rmean) / 256;
          weight_b = (767 - rmean) / 256
      in sqrt (weight_r * dr\<^sup>2 + 4 * dg\<^sup>2 + weight_b * db\<^sup>2))"

text \<open>
  Section 4.1 of the specification gives the blend per channel as
  \<open>round (background * (1 - \<alpha>) + foreground * \<alpha>)\<close> clamped to \<open>[0, 255]\<close>, and the
  foreground itself for \<open>\<alpha> \<ge> 1\<close>. The formula is taken as it is written, in exact
  arithmetic.
\<close>

definition clamp255 :: "int \<Rightarrow> int" where
  "clamp255 v = max 0 (min 255 v)"

definition blend_spec :: "(int, 'a) RGB_scheme \<Rightarrow> int RGB \<Rightarrow> real \<Rightarrow> int RGB" where
  "blend_spec bg fg alpha =
     (if alpha \<ge> 1 then fg
      else \<lparr>r = clamp255 (mathRound (real_of_int (r bg) * (1 - alpha) + real_of_int (r fg) * alpha)),
            g = clamp255 (mathRound (real_of_int (g bg) * (1 - alpha) + real_of_int (g fg) * alpha)),
            b = clamp255 (mathRound (real_of_int (b bg) * (1 - alpha) + real_of_int (b fg) * alpha))\<rparr>)"

text \<open>The hexadecimal digits, in either case.\<close>

definition hexDigitChar :: "char \<Rightarrow> bool" where
  "hexDigitChar c \<longleftrightarrow> c \<in> set ''0123456789abcdefABCDEF''"

section \<open>Auxiliary notions for the proofs\<close>


text \<open>
  What one visit of the loop body does to a pixel: the new pixel object if the blended
  hex differs from the pixel's own, and nothing (\<open>None\<close>) otherwise.
\<close>

definition paintResult :: "int RGB \<Rightarrow> real \<Rightarrow> PixelData \<Rightarrow> PixelData option" where
  "paintResult paintRgb brushOpacity px =
     (let blended = blendColors px paintRgb brushOpacity;
          blendedHex = rgbToHex (r blended) (g blended) (b blended)
      in if hex px \<noteq> blendedHex
         then Some \<lparr>r = r blended, g = g blended, b = b blended, hex = blendedHex\<rparr>
         else None)"

text \<open>
  A grid in the store whose references are in use: the grid array, its row arrays and
  their pixel objects have been created (they are below \<open>nextRef\<close>). A reference is taken
  from \<open>nextRef\<close> before it is stored anywhere, so every grid that the program holds is of
  this kind, whatever its dimensions; the updater keeps the property
  (\<open>setPixelsUpdater_allocated\<close> below).
\<close>

definition gridAllocated :: "store \<Rightarrow> ref \<Rightarrow> bool" where
  "gridAllocated s grid \<longleftrightarrow>
     grid < nextRef s
     \<and> (\<forall>row \<in> set (gridArr s grid).
           row < nextRef s \<and> (\<forall>p \<in> set (rowArr s row). p < nextRef s))"

text \<open>
  The bounds check of the updater is against the configuration:
  \<^verbatim>\<open>targetY >= 0 && targetY < config.rows && targetX >= 0 && targetX < config.cols\<close>.
  A target that passes it while the grid has no row \<open>targetY\<close> (the grid has \<open>n\<close> rows,
  fewer than the configuration says) makes the updater throw.
\<close>

definition inConfig :: "GridConfig \<Rightarrow> int \<times> int \<Rightarrow> bool" where
  "inConfig config t \<longleftrightarrow> fst t \<ge> 0 \<and> fst t < rows config \<and> snd t \<ge> 0 \<and> snd t < cols config"

definition rowMissing :: "GridConfig \<Rightarrow> nat \<Rightarrow> int \<times> int \<Rightarrow> bool" where
  "rowMissing config n t \<longleftrightarrow> inConfig config t \<and> int n \<le> fst t"

text \<open>
  The loop invariant of the updater. \<open>s0\<close> is the store when the updater starts, so
  \<open>nextRef s0\<close> is the reference of \<^verbatim>\<open>newPixels\<close>; \<open>old\<close> is the row list of \<^verbatim>\<open>prev\<close>; \<open>D\<close> is
  the set of targets already visited that passed the bounds check. Objects that existed
  at the start are unchanged (\<open>frameInv\<close>); each row of \<^verbatim>\<open>newPixels\<close> is the row of \<^verbatim>\<open>prev\<close> or a copy of its own, of the
  same length (\<open>rowsInv\<close>); each cell holds a new object if it was visited and its hex
  changed, its old object otherwise (\<open>cellsInv\<close>); \<^verbatim>\<open>changed\<close> tells whether some visited
  cell got a new object (\<open>changedInv\<close>).
\<close>

definition frameInv :: "store \<Rightarrow> store \<Rightarrow> bool" where
  "frameInv s0 s \<longleftrightarrow>
     nextRef s0 < nextRef s
     \<and> (\<forall>a < nextRef s0. pixelObj s a = pixelObj s0 a \<and> rowArr s a = rowArr s0 a)
     \<and> (\<forall>a. a \<noteq> nextRef s0 \<longrightarrow> gridArr s a = gridArr s0 a)"

definition rowsInv :: "store \<Rightarrow> ref list \<Rightarrow> store \<Rightarrow> bool" where
  "rowsInv s0 old s \<longleftrightarrow>
     length (gridArr s (nextRef s0)) = length old
     \<and> (\<forall>y < length old. gridArr s (nextRef s0) ! y = old ! y
            \<or> (nextRef s0 \<le> gridArr s (nextRef s0) ! y \<and> gridArr s (nextRef s0) ! y < nextRef s))
     \<and> (\<forall>y < length old. \<forall>y' < length old. y \<noteq> y' \<longrightarrow> nextRef s0 \<le> gridArr s (nextRef s0) ! y
            \<longrightarrow> gridArr s (nextRef s0) ! y \<noteq> gridArr s (nextRef s0) ! y')
     \<and> (\<forall>y < length old. length (rowArr s (gridArr s (nextRef s0) ! y)) = length (rowArr s0 (old ! y)))"

definition cellsInv :: "store \<Rightarrow> ref list \<Rightarrow> (PixelData \<Rightarrow> PixelData option) \<Rightarrow> (int \<times> int) set \<Rightarrow> store \<Rightarrow> bool" where
  "cellsInv s0 old P D s \<longleftrightarrow>
     (\<forall>y < length old. \<forall>x < length (rowArr s0 (old ! y)).
        (case (if (int y, int x) \<in> D then P (pixelObj s0 (rowArr s0 (old ! y) ! x)) else None) of
           Some px \<Rightarrow> nextRef s0 \<le> rowArr s (gridArr s (nextRef s0) ! y) ! x
                      \<and> rowArr s (gridArr s (nextRef s0) ! y) ! x < nextRef s
                      \<and> pixelObj s (rowArr s (gridArr s (nextRef s0) ! y) ! x) = px
         | None \<Rightarrow> rowArr s (gridArr s (nextRef s0) ! y) ! x = rowArr s0 (old ! y) ! x))"

definition changedInv :: "store \<Rightarrow> ref list \<Rightarrow> (PixelData \<Rightarrow> PixelData option) \<Rightarrow> (int \<times> int) set \<Rightarrow> bool \<Rightarrow> bool" where
  "changedInv s0 old P D changed \<longleftrightarrow>
     (changed \<longleftrightarrow> (\<exists>y < length old. \<exists>x < length (rowArr s0 (old ! y)).
                       (int y, int x) \<in> D \<and> P (pixelObj s0 (rowArr s0 (old ! y) ! x)) \<noteq> None))"

definition paintInv :: "store \<Rightarrow> ref list \<Rightarrow> (PixelData \<Rightarrow> PixelData option) \<Rightarrow> (int \<times> int) set \<Rightarrow> store \<times> bool \<Rightarrow> bool" where
  "paintInv s0 old P D st \<longleftrightarrow>
     frameInv s0 (fst st) \<and> rowsInv s0 old (fst st) \<and> cellsInv s0 old P D (fst st)
     \<and> changedInv s0 old P D (snd st)"

definition oldAllocated :: "store \<Rightarrow> ref list \<Rightarrow> bool" where
  "oldAllocated s0 old \<longleftrightarrow>
     (\<forall>row \<in> set old. row < nextRef s0 \<and> (\<forall>p \<in> set (rowArr s0 row). p < nextRef s0))"

text \<open>
  The targets that the two loops of the updater visit, in their order: for each \<open>dy\<close> and
  each \<open>dx\<close> in \<open>[0, brushSize)\<close> the cell \<open>(mouseY - offset + dy, mouseX - offset + dx)\<close>.
\<close>

definition brushTargets :: "int \<Rightarrow> int \<Rightarrow> int \<Rightarrow> int \<Rightarrow> (int \<times> int) list" where
  "brushTargets mouseY mouseX brushSize offset =
     map (\<lambda>(dy, dx). (mouseY - offset + dy, mouseX - offset + dx))
       (List.product [0..brushSize - 1] [0..brushSize - 1])"

text \<open>The pixel of cell \<open>(y, x)\<close> after the targets \<open>T\<close> have been visited.\<close>

definition cellAfter :: "(PixelData \<Rightarrow> PixelData option) \<Rightarrow> (int \<times> int) set \<Rightarrow> nat \<Rightarrow> nat \<Rightarrow> PixelData \<Rightarrow> PixelData" where
  "cellAfter P T y x px =
     (if (int y, int x) \<in> T then (case P px of Some px' \<Rightarrow> px' | None \<Rightarrow> px) else px)"

text \<open>The pixel that a visited cell holds afterwards.\<close>

definition paintedPixel :: "int RGB \<Rightarrow> real \<Rightarrow> PixelData \<Rightarrow> PixelData" where
  "paintedPixel paintRgb brushOpacity px =
     (case paintResult paintRgb brushOpacity px of Some px' \<Rightarrow> px' | None \<Rightarrow> px)"

text \<open>The hex string of the blend of a pixel with the paint colour.\<close>

definition blendedHex :: "int RGB \<Rightarrow> real \<Rightarrow> PixelData \<Rightarrow> string" where
  "blendedHex paintRgb brushOpacity px =
     (let blended = blendColors px paintRgb brushOpacity
      in rgbToHex (r blended) (g blended) (b blended))"

text \<open>The pixel values of the grid that the updater returns, if it returns.\<close>

definition resultGrid :: "error + ref \<times> store \<Rightarrow> PixelData list list option" where
  "resultGrid res = (case res of Inl _ \<Rightarrow> None | Inr (grid, s) \<Rightarrow> Some (gridValue s grid))"

section \<open>An example grid\<close>

text \<open>
  A 3 by 3 grid of black pixels: nine pixel objects at the references 0 to 8, three row
  arrays at 9 to 11 and the grid array at 12.
\<close>

definition blackPixel :: PixelData where
  "blackPixel = \<lparr>r = 0, g = 0, b = 0, hex = ''#000000''\<rparr>"

definition whitePixel :: PixelData where
  "whitePixel = \<lparr>r = 255, g = 255, b = 255, hex = ''#ffffff''\<rparr>"

definition blackStore :: store where
  "blackStore = \<lparr>pixelObj = (\<lambda>_. blackPixel),
      rowArr = (\<lambda>_. [])(9 := [0, 1, 2], 10 := [3, 4, 5], 11 := [6, 7, 8]),
      gridArr = (\<lambda>_. [])(12 := [9, 10, 11]),
      nextRef = 13\<rparr>"

definition config3x3 :: GridConfig where
  "config3x3 = \<lparr>rows = 3, cols = 3, showGrid = True, showNumbers = False, contrast = 1,
       usePalette = False, palette = []\<rparr>"

section \<open>Properties of double rounding\<close>

lemma roundTiesToEven_of_int: "roundTiesToEven (of_int n) = n"
  by (simp add: roundTiesToEven_def)

lemma roundTiesToEven_error: "\<bar>of_int (roundTiesToEven x) - x\<bar> \<le> 1 / 2"
  unfolding roundTiesToEven_def Let_def by (auto simp: abs_if) linarith+

lemma roundTiesToEven_nonneg: "0 \<le> x \<Longrightarrow> 0 \<le> roundTiesToEven x"
  unfolding roundTiesToEven_def Let_def by (auto simp: add_nonneg_nonneg)

lemma toDouble_nonneg: "0 \<le> x \<Longrightarrow> 0 \<le> toDouble x"
  unfolding toDouble_def Let_def
  by (auto intro!: mult_nonneg_nonneg roundTiesToEven_nonneg divide_nonneg_nonneg)

lemma toDouble_error:
  assumes "\<bar>x\<bar> < 1024"
  shows "\<bar>toDouble x - x\<bar> \<le> 1 / 2 ^ 44"
proof (cases "x = 0")
  case True
  then show ?thesis by (simp add: toDouble_def)
next
  case False
  define e where "e = max \<lfloor>log 2 \<bar>x\<bar>\<rfloor> (- 1022)"
  define q where "q = (2::real) powr (of_int e - 52)"
  have qpos: "0 < q" by (simp add: q_def)
  have "log 2 \<bar>x\<bar> < log 2 1024" using assms False by (simp del: log_less_cancel_iff add: log_less_cancel_iff)
  moreover have "log 2 1024 = 10"
  proof -
    have "(1024::real) = 2 ^ 10" by simp
    then show ?thesis by (simp only: log_pow_cancel)
  qed
  ultimately have "\<lfloor>log 2 \<bar>x\<bar>\<rfloor> \<le> 9" by linarith
  then have "e \<le> 9" by (simp add: e_def)
  then have "q \<le> 2 powr (- 43)" unfolding q_def by (intro powr_mono) auto
  also have "\<dots> = 1 / 2 ^ 43"
    by (simp add: powr_minus powr_realpow [of 2 43, simplified] field_simps)
  finally have qle: "q \<le> 1 / 2 ^ 43" .
  have td: "toDouble x = q * of_int (roundTiesToEven (x / q))"
    using False by (simp add: toDouble_def Let_def e_def q_def)
  have "toDouble x - x = q * (of_int (roundTiesToEven (x / q)) - x / q)"
    using qpos by (simp add: td field_simps)
  then have "\<bar>toDouble x - x\<bar> = q * \<bar>of_int (roundTiesToEven (x / q)) - x / q\<bar>"
    using qpos by (simp add: abs_mult)
  also have "\<dots> \<le> q * (1 / 2)"
    using qpos roundTiesToEven_error [of "x / q"] by (intro mult_left_mono) auto
  also have "\<dots> \<le> (1 / 2 ^ 43) * (1 / 2)" using qle by simp
  finally show ?thesis by simp
qed

text \<open>A dyadic rational with a numerator below \<open>2^53\<close> is a double.\<close>

lemma toDouble_exact:
  assumes m: "\<bar>m\<bar> < 2 ^ 53" and j: "j \<le> 1074"
  shows "toDouble (of_int m / 2 ^ j) = of_int m / 2 ^ j"
proof (cases "m = 0")
  case True
  then show ?thesis by (simp add: toDouble_def)
next
  case False
  define x where "x = real_of_int m / 2 ^ j"
  have x0: "x \<noteq> 0" using False by (simp add: x_def)
  define e where "e = max \<lfloor>log 2 \<bar>x\<bar>\<rfloor> (- 1022)"
  define q where "q = (2::real) powr (of_int e - 52)"
  have ax: "\<bar>x\<bar> = real_of_int \<bar>m\<bar> / 2 ^ j" by (simp add: x_def abs_divide) 
  have "\<bar>x\<bar> < 2 ^ 53 / 2 ^ j"
    unfolding ax using m by (intro divide_strict_right_mono) (auto simp: of_int_less_iff [where 'a = real, symmetric] simp del: of_int_less_iff)
  also have "\<dots> = 2 powr (53 - real j)"
    by (simp add: powr_diff powr_realpow [symmetric])
  finally have "log 2 \<bar>x\<bar> < 53 - real j"
    using x0 by (simp add: log_less_iff)
  then have "\<lfloor>log 2 \<bar>x\<bar>\<rfloor> \<le> 52 - int j" by linarith
  moreover have "- 1022 \<le> 52 - int j" using j by simp
  ultimately have el: "e \<le> 52 - int j" by (simp add: e_def)
  define d where "d = nat (52 - int j - e)"
  have dd: "real d = 52 - real j - real_of_int e" using el by (simp add: d_def)
  have "x / q = real_of_int m * (2 powr (- real j) / 2 powr (real_of_int e - 52))"
    by (simp add: x_def q_def powr_minus powr_realpow field_simps)
  also have "2 powr (- real j) / 2 powr (real_of_int e - 52) = 2 powr (real d)"
  proof -
    have "- real j - (real_of_int e - 52) = real d" using dd by simp
    then show ?thesis by (simp add: powr_diff [symmetric])
  qed
  also have "\<dots> = 2 ^ d" by (simp add: powr_realpow)
  finally have xq: "x / q = real_of_int (m * 2 ^ d)" by simp
  have "toDouble x = q * of_int (roundTiesToEven (x / q))"
    using x0 by (simp add: toDouble_def Let_def e_def q_def)
  also have "\<dots> = q * (x / q)" by (simp only: xq roundTiesToEven_of_int)
  also have "\<dots> = x" by (simp add: q_def)
  finally show ?thesis by (simp add: x_def)
qed

lemma toDouble_of_int: "\<bar>m\<bar> < 2 ^ 53 \<Longrightarrow> toDouble (of_int m) = of_int m"
  using toDouble_exact [of m 0] by simp

lemma toDouble_zero: "toDouble 0 = 0"
  by (simp add: toDouble_def)

lemma toDouble_numeral: "numeral n < (2::int) ^ 53 \<Longrightarrow> toDouble (numeral n) = numeral n"
  using toDouble_of_int [of "numeral n"] by simp

lemma toDouble_one: "toDouble 1 = 1"
  using toDouble_of_int [of 1] by simp

lemma toDouble_halves: "numeral n < (2::int) ^ 53 \<Longrightarrow> toDouble (numeral n / 2) = numeral n / 2"
  using toDouble_exact [of "numeral n" 1] by simp

lemma toDouble_half: "toDouble (1 / 2) = 1 / 2"
  using toDouble_exact [of 1 1] by simp

text \<open>How \<open>toDouble\<close> is evaluated at a value whose binary exponent is known.\<close>

lemma roundTiesToEven_near:
  assumes "of_int n - 1 / 2 < x" "x < of_int n + 1 / 2"
  shows "roundTiesToEven x = n"
proof -
  have "\<lfloor>x\<rfloor> = n \<or> \<lfloor>x\<rfloor> = n - 1" using assms by linarith
  then show ?thesis
  proof
    assume f: "\<lfloor>x\<rfloor> = n"
    then have "x - of_int \<lfloor>x\<rfloor> < 1 / 2" using assms by simp
    then show ?thesis using f by (simp add: roundTiesToEven_def Let_def)
  next
    assume f: "\<lfloor>x\<rfloor> = n - 1"
    then have "1 / 2 < x - of_int \<lfloor>x\<rfloor>" using assms by simp
    then show ?thesis using f by (simp add: roundTiesToEven_def Let_def)
  qed
qed

lemma toDouble_at:
  assumes "2 powr (of_int e) \<le> \<bar>x\<bar>" "\<bar>x\<bar> < 2 powr (of_int e + 1)" "- 1022 \<le> e"
  shows "toDouble x = 2 powr (of_int e - 52) * of_int (roundTiesToEven (x / 2 powr (of_int e - 52)))"
proof -
  have pos: "0 < \<bar>x\<bar>" using assms(1) by (smt (verit) powr_gt_zero)
  then have x0: "x \<noteq> 0" by simp
  have "of_int e \<le> log 2 \<bar>x\<bar>" using assms(1) pos by (simp add: le_log_iff)
  moreover have "log 2 \<bar>x\<bar> < of_int e + 1" using assms(2) pos by (simp add: log_less_iff)
  ultimately have "\<lfloor>log 2 \<bar>x\<bar>\<rfloor> = e" by linarith
  then show ?thesis using x0 assms(3) by (simp add: toDouble_def Let_def max_def)
qed

lemma toDouble_eval:
  assumes "2 powr (of_int e) \<le> \<bar>x\<bar>" "\<bar>x\<bar> < 2 powr (of_int e + 1)" "- 1022 \<le> e"
    and "of_int n - 1 / 2 < x / 2 powr (of_int e - 52)"
    and "x / 2 powr (of_int e - 52) < of_int n + 1 / 2"
  shows "toDouble x = of_int n * 2 powr (of_int e - 52)"
  using toDouble_at [OF assms(1-3)] roundTiesToEven_near [OF assms(4,5)] by simp

text \<open>The double nearest to the square root of 2.\<close>

lemma toDouble_sqrt2: "toDouble (sqrt 2) = 6369051672525773 / 2 ^ 52"
proof -
  have lo: "1 \<le> sqrt 2" by simp
  have hi: "sqrt 2 < 2" by (rule real_less_lsqrt) simp_all
  have td: "toDouble (sqrt 2) = 2 powr (- 52) * of_int (roundTiesToEven (sqrt 2 / 2 powr (- 52)))"
    using toDouble_at [of 0 "sqrt 2"] lo hi by simp
  have p: "(2::real) powr (- 52) = 1 / 2 ^ 52" by (simp add: powr_minus_divide)
  have a: "(6369051672525773 - 1 / 2) / 2 ^ 52 < sqrt 2"
    by (rule real_less_rsqrt) (simp add: power2_eq_square)
  have b: "sqrt 2 < (6369051672525773 + 1 / 2) / 2 ^ 52"
    by (rule real_less_lsqrt) (simp_all add: power2_eq_square)
  have "roundTiesToEven (sqrt 2 * 2 ^ 52) = 6369051672525773"
    using a b by (intro roundTiesToEven_near) (simp_all add: field_simps)
  then show ?thesis by (simp add: td p)
qed

section \<open>Properties of getColorDistance\<close>

lemma toInt32_id: "0 \<le> v \<Longrightarrow> v < 2 ^ 31 \<Longrightarrow> toInt32 v = v"
  by (simp add: toInt32_def)

lemma shiftRight8_half: 
  assumes "0 \<le> n" "n < 2 ^ 32"
  shows "shiftRight8 (real_of_int n / 2) = n div 512"
proof -
  have t: "jsTrunc (real_of_int n / 2) = n div 2"
    using assms(1) by (simp add: jsTrunc_def floor_divide_of_int_eq [of n 2, simplified])
  have "0 \<le> n div 2" "n div 2 < 2 ^ 31" using assms by auto
  then have "toInt32 (n div 2) = n div 2" by (rule toInt32_id)
  moreover have "n div 2 div 256 = n div 512"
    by (simp add: div_mult2_eq [symmetric])
  ultimately show ?thesis by (simp add: shiftRight8_def t)
qed

lemma square_bound: 
  assumes "- 255 \<le> d" "d \<le> (255::int)"
  shows "0 \<le> d * d" "d * d \<le> 65025"
proof -
  show "0 \<le> d * d" by simp
  have "\<bar>d\<bar> \<le> 255" using assms by simp
  then have "\<bar>d\<bar> * \<bar>d\<bar> \<le> 255 * 255" by (intro mult_mono) auto
  then show "d * d \<le> 65025" by simp
qed

lemma weighted_bound:
  assumes "0 \<le> w" "w \<le> 1534" "0 \<le> q" "q \<le> (65025::int)"
  shows "0 \<le> w * q" "w * q < 2 ^ 32"
proof -
  show "0 \<le> w * q" using assms by simp
  have "w * q \<le> 1534 * 65025" using assms by (intro mult_mono) auto
  then show "w * q < 2 ^ 32" by simp
qed

lemma distanceRadicand_int:
  assumes "color_ok c1" "color_ok c2"
  shows "distanceRadicand c1 c2 =
           ((1024 + r c1 + r c2) * ((r c1 - r c2) * (r c1 - r c2))) div 512
           + 4 * ((g c1 - g c2) * (g c1 - g c2))
           + ((1534 - r c1 - r c2) * ((b c1 - b c2) * (b c1 - b c2))) div 512"
proof -
  let ?dr = "r c1 - r c2" and ?db = "b c1 - b c2"
  let ?A = "(1024 + r c1 + r c2) * (?dr * ?dr)"
  let ?B = "(1534 - r c1 - r c2) * (?db * ?db)"
  have rng: "0 \<le> r c1" "r c1 \<le> 255" "0 \<le> r c2" "r c2 \<le> 255"
            "0 \<le> b c1" "b c1 \<le> 255" "0 \<le> b c2" "b c2 \<le> 255"
    using assms by (auto simp: color_ok_def channel_ok_def)
  have sr: "0 \<le> ?dr * ?dr" "?dr * ?dr \<le> 65025" using rng by (auto intro: square_bound)
  have sb: "0 \<le> ?db * ?db" "?db * ?db \<le> 65025" using rng by (auto intro: square_bound)
  have A: "0 \<le> ?A" "?A < 2 ^ 32" using weighted_bound [of "1024 + r c1 + r c2" "?dr * ?dr"] rng sr by auto
  have B: "0 \<le> ?B" "?B < 2 ^ 32" using weighted_bound [of "1534 - r c1 - r c2" "?db * ?db"] rng sb by auto
  have eA: "(512 + (real_of_int (r c1) + real_of_int (r c2)) / 2) * real_of_int ?dr * real_of_int ?dr
            = real_of_int ?A / 2"
    by (simp add: field_simps)
  have eB: "(767 - (real_of_int (r c1) + real_of_int (r c2)) / 2) * real_of_int ?db * real_of_int ?db
            = real_of_int ?B / 2"
    by (simp add: field_simps)
  show ?thesis
    unfolding distanceRadicand_def Let_def eA eB
    by (simp only: shiftRight8_half [OF A] shiftRight8_half [OF B] mult.assoc)
qed


lemma distanceRadicand_nonneg_terms:
  assumes "color_ok c1" "color_ok c2"
  shows "0 \<le> (1024 + r c1 + r c2) * ((r c1 - r c2) * (r c1 - r c2))"
    and "0 \<le> (1534 - r c1 - r c2) * ((b c1 - b c2) * (b c1 - b c2))"
  using assms by (auto simp: color_ok_def channel_ok_def)

lemma weighted_zero_iff:
  assumes "512 \<le> w"
  shows "(w * (d * d)) div 512 = 0 \<longleftrightarrow> d = (0::int)"
proof
  assume z: "(w * (d * d)) div 512 = 0"
  show "d = 0"
  proof (rule ccontr)
    assume "d \<noteq> 0"
    then have "1 \<le> d * d" by (smt (verit) mult_le_0_iff not_sum_squares_lt_zero zero_less_mult_iff)
    then have "w * 1 \<le> w * (d * d)" using assms by (intro mult_left_mono) auto
    then have "512 \<le> w * (d * d)" using assms by linarith
    then have "1 \<le> (w * (d * d)) div 512" by (simp add: pos_imp_zdiv_pos_iff)
    with z show False by simp
  qed
qed simp

lemma distanceRadicand_zero_iff:
  assumes "color_ok c1" "color_ok c2"
  shows "distanceRadicand c1 c2 = 0 \<longleftrightarrow> r c1 = r c2 \<and> g c1 = g c2 \<and> b c1 = b c2"
proof -
  let ?A = "(1024 + r c1 + r c2) * ((r c1 - r c2) * (r c1 - r c2))"
  let ?B = "(1534 - r c1 - r c2) * ((b c1 - b c2) * (b c1 - b c2))"
  let ?G = "(g c1 - g c2) * (g c1 - g c2)"
  have w: "512 \<le> 1024 + r c1 + r c2" "512 \<le> 1534 - r c1 - r c2"
    using assms by (auto simp: color_ok_def channel_ok_def)
  have nn: "0 \<le> ?A div 512" "0 \<le> ?B div 512" "0 \<le> 4 * ?G"
    using distanceRadicand_nonneg_terms [OF assms] by (simp_all add: pos_imp_zdiv_nonneg_iff)
  have "distanceRadicand c1 c2 = 0 \<longleftrightarrow> ?A div 512 = 0 \<and> 4 * ?G = 0 \<and> ?B div 512 = 0"
    unfolding distanceRadicand_int [OF assms] using nn by linarith
  also have "\<dots> \<longleftrightarrow> r c1 - r c2 = 0 \<and> g c1 - g c2 = 0 \<and> b c1 - b c2 = 0"
    by (simp add: weighted_zero_iff [OF w(1)] weighted_zero_iff [OF w(2)])
  finally show ?thesis by simp
qed

lemma distanceRadicand_self: "distanceRadicand c c = 0"
  by (simp add: distanceRadicand_def shiftRight8_def jsTrunc_def toInt32_def)

lemma distanceRadicand_commute: "distanceRadicand c1 c2 = distanceRadicand c2 c1"
proof -
  have sq: "real_of_int (x - y) * real_of_int (x - y) = real_of_int (y - x) * real_of_int (y - x)"
    for x y :: int by (simp add: algebra_simps)
  have sqi: "(x - y) * (x - y) = (y - x) * (y - x)" for x y :: int
    by (simp add: algebra_simps)
  show ?thesis
    unfolding distanceRadicand_def Let_def mult.assoc
    by (simp only: sq [of "r c1" "r c2"] sq [of "b c1" "b c2"] sqi [of "g c1" "g c2"]
          add.commute [of "real_of_int (r c1)"])
qed

lemma distanceRadicand_bounds:
  assumes "color_ok c1" "color_ok c2"
  shows "0 \<le> distanceRadicand c1 c2" "distanceRadicand c1 c2 < 2 ^ 20"
proof -
  let ?dr = "r c1 - r c2" and ?dg = "g c1 - g c2" and ?db = "b c1 - b c2"
  let ?A = "(1024 + r c1 + r c2) * (?dr * ?dr)"
  let ?B = "(1534 - r c1 - r c2) * (?db * ?db)"
  have rng: "0 \<le> r c1" "r c1 \<le> 255" "0 \<le> r c2" "r c2 \<le> 255"
            "0 \<le> g c1" "g c1 \<le> 255" "0 \<le> g c2" "g c2 \<le> 255"
            "0 \<le> b c1" "b c1 \<le> 255" "0 \<le> b c2" "b c2 \<le> 255"
    using assms by (auto simp: color_ok_def channel_ok_def)
  have sr: "0 \<le> ?dr * ?dr" "?dr * ?dr \<le> 65025" using rng by (auto intro: square_bound)
  have sg: "0 \<le> ?dg * ?dg" "?dg * ?dg \<le> 65025" using rng by (auto intro: square_bound)
  have sb: "0 \<le> ?db * ?db" "?db * ?db \<le> 65025" using rng by (auto intro: square_bound)
  have A: "0 \<le> ?A" using rng sr by simp
  have "?A \<le> 1534 * 65025" using rng sr by (intro mult_mono) auto
  then have Au: "?A div 512 \<le> 194823" by linarith
  have B: "0 \<le> ?B" using rng sb by simp
  have "?B \<le> 1534 * 65025" using rng sb by (intro mult_mono) auto
  then have Bu: "?B div 512 \<le> 194823" by linarith
  have Al: "0 \<le> ?A div 512" using A by (simp add: pos_imp_zdiv_nonneg_iff)
  have Bl: "0 \<le> ?B div 512" using B by (simp add: pos_imp_zdiv_nonneg_iff)
  show "0 \<le> distanceRadicand c1 c2"
    unfolding distanceRadicand_int [OF assms] using Al Bl sg by linarith
  show "distanceRadicand c1 c2 < 2 ^ 20"
    unfolding distanceRadicand_int [OF assms] using Au Bu sg by simp
qed

text \<open>
  On the integers below \<open>2^20\<close>, rounding the square root to a double keeps the order:
  two different square roots are at least \<open>1 / 2048\<close> apart, and rounding moves each by at
  most \<open>1 / 2^44\<close>.
\<close>

lemma sqrt_gap:
  assumes "0 \<le> m" "m < n" "n < (2::int) ^ 20"
  shows "sqrt (of_int m) + 1 / 2048 < sqrt (of_int n)"
proof -
  define a where "a = sqrt (real_of_int m)"
  define c where "c = sqrt (real_of_int n)"
  have a0: "0 \<le> a" using assms by (simp add: a_def)
  have "real_of_int n < real_of_int (2 ^ 20)" using assms(3) by (simp only: of_int_less_iff)
  then have "real_of_int n < 2 ^ 20" by simp
  then have "c < sqrt (2 ^ 20)" unfolding c_def by (simp only: real_sqrt_less_iff)
  also have "sqrt (2 ^ 20) = (1024::real)" by (rule real_sqrt_unique) simp_all
  finally have cu: "c < 1024" .
  have ac: "a < c" using assms by (simp add: a_def c_def)
  have sq: "a * a = of_int m" "c * c = of_int n" using assms by (simp_all add: a_def c_def)
  have "(c - a) * (c + a) = of_int n - of_int m" using sq by (simp add: algebra_simps)
  also have "\<dots> = real_of_int (n - m)" by simp
  finally have "1 \<le> (c - a) * (c + a)" using assms(2) by simp
  moreover have "(c - a) * (c + a) \<le> (c - a) * 2048"
    using ac cu a0 by (intro mult_left_mono) auto
  ultimately have "1 / 2048 \<le> c - a" by simp
  moreover have "c - a \<noteq> 1 / 2048"
  proof
    assume e: "c - a = 1 / 2048"
    have "c + a < 2048" using ac cu by simp
    then have "(c - a) * (c + a) < (1 / 2048) * 2048" unfolding e by (intro mult_strict_left_mono) auto
    with \<open>1 \<le> (c - a) * (c + a)\<close> show False by simp
  qed
  ultimately show ?thesis by (simp add: a_def c_def)
qed

lemma toDouble_sqrt_mono:
  assumes "0 \<le> m" "m < n" "n < (2::int) ^ 20"
  shows "toDouble (sqrt (of_int m)) < toDouble (sqrt (of_int n))"
proof -
  have b: "\<bar>sqrt (real_of_int k)\<bar> < 1024" if "0 \<le> k" "k < 2 ^ 20" for k :: int
  proof -
    have "real_of_int k < real_of_int (2 ^ 20)" using that(2) by (simp only: of_int_less_iff)
    then have "real_of_int k < 2 ^ 20" by simp
    then have "sqrt (real_of_int k) < sqrt (2 ^ 20)" by (simp only: real_sqrt_less_iff)
    also have "sqrt (2 ^ 20) = (1024::real)" by (rule real_sqrt_unique) simp_all
    finally show ?thesis using that(1) by simp
  qed
  have "\<bar>toDouble (sqrt (of_int m)) - sqrt (of_int m)\<bar> \<le> 1 / 2 ^ 44"
    using assms by (intro toDouble_error b) auto
  moreover have "\<bar>toDouble (sqrt (of_int n)) - sqrt (of_int n)\<bar> \<le> 1 / 2 ^ 44"
    using assms by (intro toDouble_error b) auto
  moreover note sqrt_gap [OF assms]
  moreover have "(1::real) / 2 ^ 44 < 1 / 4096" by simp
  ultimately show ?thesis by linarith
qed

lemma toDouble_sqrt_less_iff:
  assumes "0 \<le> m" "m < 2 ^ 20" "0 \<le> n" "n < (2::int) ^ 20"
  shows "toDouble (sqrt (of_int m)) < toDouble (sqrt (of_int n)) \<longleftrightarrow> m < n"
    and "toDouble (sqrt (of_int m)) = toDouble (sqrt (of_int n)) \<longleftrightarrow> m = n"
proof -
  consider "m < n" | "m = n" | "n < m" by linarith
  then show "toDouble (sqrt (of_int m)) < toDouble (sqrt (of_int n)) \<longleftrightarrow> m < n"
  proof cases
    case 1 then show ?thesis using toDouble_sqrt_mono [of m n] assms by simp
  next
    case 2 then show ?thesis by simp
  next
    case 3 then show ?thesis using toDouble_sqrt_mono [of n m] assms by simp
  qed
  consider "m < n" | "m = n" | "n < m" by linarith
  then show "toDouble (sqrt (of_int m)) = toDouble (sqrt (of_int n)) \<longleftrightarrow> m = n"
  proof cases
    case 1 then show ?thesis using toDouble_sqrt_mono [of m n] assms by simp
  next
    case 2 then show ?thesis by simp
  next
    case 3 then show ?thesis using toDouble_sqrt_mono [of n m] assms by simp
  qed
qed

text \<open>The distance orders colour pairs as the integer under the square root does.\<close>

lemma getColorDistance_less_iff:
  assumes "color_ok c1" "color_ok c2" "color_ok c3" "color_ok c4"
  shows "getColorDistance c1 c2 < getColorDistance c3 c4
           \<longleftrightarrow> distanceRadicand c1 c2 < distanceRadicand c3 c4"
  unfolding getColorDistance_def
  using distanceRadicand_bounds [OF assms(1,2)] distanceRadicand_bounds [OF assms(3,4)]
  by (intro toDouble_sqrt_less_iff) auto

lemma getColorDistance_eq_iff:
  assumes "color_ok c1" "color_ok c2" "color_ok c3" "color_ok c4"
  shows "getColorDistance c1 c2 = getColorDistance c3 c4
           \<longleftrightarrow> distanceRadicand c1 c2 = distanceRadicand c3 c4"
  unfolding getColorDistance_def
  using distanceRadicand_bounds [OF assms(1,2)] distanceRadicand_bounds [OF assms(3,4)]
  by (intro toDouble_sqrt_less_iff) auto

lemma getColorDistance_zero_iff:
  assumes "color_ok c1" "color_ok c2"
  shows "getColorDistance c1 c2 = 0 \<longleftrightarrow> distanceRadicand c1 c2 = 0"
proof -
  have "toDouble (sqrt (of_int (distanceRadicand c1 c2))) = toDouble (sqrt (of_int 0))
          \<longleftrightarrow> distanceRadicand c1 c2 = 0"
    using distanceRadicand_bounds [OF assms] by (intro toDouble_sqrt_less_iff) auto
  then show ?thesis by (simp add: getColorDistance_def toDouble_zero)
qed

text \<open>
  C7: for all colours (channels in \<open>[0, 255]\<close>) the distance of a colour to itself is 0,
  the distance is symmetric in its two arguments, and it is 0 if and only if the two
  colours have equal r, g and b channels.
\<close>

theorem getColorDistance_zero_symmetric:
  assumes "color_ok c" "color_ok c1" "color_ok c2"
  shows "getColorDistance c c = 0
   \<and> getColorDistance c1 c2 = getColorDistance c2 c1
   \<and> (getColorDistance c1 c2 = 0 \<longleftrightarrow> r c1 = r c2 \<and> g c1 = g c2 \<and> b c1 = b c2)"
proof (intro conjI)
  show "getColorDistance c c = 0"
    by (simp add: getColorDistance_def distanceRadicand_self toDouble_zero)
  show "getColorDistance c1 c2 = getColorDistance c2 c1"
    by (simp add: getColorDistance_def distanceRadicand_commute [of c1 c2])
  show "getColorDistance c1 c2 = 0 \<longleftrightarrow> r c1 = r c2 \<and> g c1 = g c2 \<and> b c1 = b c2"
    using assms(2,3) by (simp add: getColorDistance_zero_iff distanceRadicand_zero_iff)
qed

theorem getColorDistance_zero_symmetric_witness:
  "color_ok \<lparr>r = 1, g = 2, b = 3\<rparr> \<and> color_ok \<lparr>r = 1, g = 2, b = 4\<rparr>
   \<and> getColorDistance \<lparr>r = 1, g = 2, b = 3\<rparr> \<lparr>r = 1, g = 2, b = 4\<rparr> \<noteq> 0
   \<and> getColorDistance \<lparr>r = 1, g = 2, b = 3\<rparr> \<lparr>r = 1, g = 2, b = 3\<rparr> = 0"
  using getColorDistance_zero_symmetric
          [of "\<lparr>r = 1, g = 2, b = 3\<rparr>" "\<lparr>r = 1, g = 2, b = 3\<rparr>" "\<lparr>r = 1, g = 2, b = 4\<rparr>"]
  by (simp add: color_ok_def channel_ok_def)

text \<open>
  C2 (as amended): for all colours \<open>c1\<close>, \<open>c2\<close> with channels in \<open>[0, 255]\<close>, the distance is
  the double nearest to \<open>sqrt (\<lfloor>weight_r * dr\<^sup>2\<rfloor> + 4 * dg\<^sup>2 + \<lfloor>weight_b * db\<^sup>2\<rfloor>)\<close> with
  \<open>rmean = (c1.r + c2.r) / 2\<close>, \<open>weight_r = (512 + rmean) / 256\<close> and
  \<open>weight_b = (767 - rmean) / 256\<close>: the red and the blue term are each rounded down to an
  integer (the code's \<^verbatim>\<open>>> 8\<close>) before the sum is taken, and \<^verbatim>\<open>Math.sqrt\<close> rounds the square
  root of the sum to a double. For \<open>(1, 0, 0)\<close> and \<open>(0, 0, 0)\<close> this is
  \<open>6369051672525773 / 2^52\<close>, the double nearest to \<open>sqrt 2\<close>.
\<close>

theorem getColorDistance_truncated:
  assumes "color_ok c1" "color_ok c2"
  shows "getColorDistance c1 c2 =
     (let rmean = (real_of_int (r c1) + real_of_int (r c2)) / 2;
          dr = real_of_int (r c1 - r c2);
          dg = real_of_int (g c1 - g c2);
          db = real_of_int (b c1 - b c2);
          weight_r = (512 + rmean) / 256;
          weight_b = (767 - rmean) / 256
      in toDouble (sqrt (real_of_int \<lfloor>weight_r * dr\<^sup>2\<rfloor> + 4 * dg\<^sup>2 + real_of_int \<lfloor>weight_b * db\<^sup>2\<rfloor>)))"
proof -
  let ?A = "(1024 + r c1 + r c2) * ((r c1 - r c2) * (r c1 - r c2))"
  let ?B = "(1534 - r c1 - r c2) * ((b c1 - b c2) * (b c1 - b c2))"
  have eA: "(512 + (real_of_int (r c1) + real_of_int (r c2)) / 2) / 256 * (real_of_int (r c1 - r c2))\<^sup>2
            = real_of_int ?A / real_of_int 512"
    by (simp add: field_simps power2_eq_square)
  have eB: "(767 - (real_of_int (r c1) + real_of_int (r c2)) / 2) / 256 * (real_of_int (b c1 - b c2))\<^sup>2
            = real_of_int ?B / real_of_int 512"
    by (simp add: field_simps power2_eq_square)
  show ?thesis
    unfolding getColorDistance_def distanceRadicand_int [OF assms] Let_def eA eB
      floor_divide_of_int_eq
    by (simp add: power2_eq_square)
qed

theorem getColorDistance_truncated_witness:
  "color_ok \<lparr>r = 1, g = 0, b = 0\<rparr> \<and> color_ok \<lparr>r = 0, g = 0, b = 0\<rparr>
   \<and> getColorDistance \<lparr>r = 1, g = 0, b = 0\<rparr> \<lparr>r = 0, g = 0, b = 0\<rparr> = 6369051672525773 / 2 ^ 52"
  using getColorDistance_truncated [of "\<lparr>r = 1, g = 0, b = 0\<rparr>" "\<lparr>r = 0, g = 0, b = 0\<rparr>"]
  by (simp add: color_ok_def channel_ok_def toDouble_sqrt2)

text \<open>
  C2 as stated, in exact real arithmetic, fails for the colours \<open>(1, 0, 0)\<close> and
  \<open>(0, 0, 0)\<close>: the code gives the double nearest to \<open>sqrt 2\<close>, the formula
  \<open>sqrt (1025 / 512)\<close>, which is more than \<open>1 / 2048\<close> larger (far more than the rounding
  of the square root accounts for).
\<close>

theorem getColorDistance_exact_counterexample:
  "getColorDistance \<lparr>r = 1, g = 0, b = 0\<rparr> \<lparr>r = 0, g = 0, b = 0\<rparr>
     \<noteq> distance_spec \<lparr>r = 1, g = 0, b = 0\<rparr> \<lparr>r = 0, g = 0, b = 0\<rparr>
   \<and> getColorDistance \<lparr>r = 1, g = 0, b = 0\<rparr> \<lparr>r = 0, g = 0, b = 0\<rparr> + 1 / 2048
     < distance_spec \<lparr>r = 1, g = 0, b = 0\<rparr> \<lparr>r = 0, g = 0, b = 0\<rparr>"
proof -
  have "distanceRadicand \<lparr>r = 1, g = 0, b = 0\<rparr> \<lparr>r = 0, g = 0, b = 0\<rparr> = 2"
    by (simp add: distanceRadicand_def shiftRight8_def toInt32_def jsTrunc_def)
  then have c: "getColorDistance \<lparr>r = 1, g = 0, b = 0\<rparr> \<lparr>r = 0, g = 0, b = 0\<rparr> = 6369051672525773 / 2 ^ 52"
    by (simp add: getColorDistance_def toDouble_sqrt2)
  have s: "distance_spec \<lparr>r = 1, g = 0, b = 0\<rparr> \<lparr>r = 0, g = 0, b = 0\<rparr> = sqrt (1025 / 512)"
    by (simp add: distance_spec_def)
  have "6369051672525773 / 2 ^ 52 + 1 / 2048 < sqrt (1025 / 512)"
    by (rule real_less_rsqrt) (simp add: power2_eq_square)
  then show ?thesis unfolding c s by simp
qed

section \<open>Properties of blendColors\<close>

text \<open>
  One channel of the blend for \<open>0 \<le> \<alpha> < 1\<close>: the four roundings move the value by at most
  \<open>258 / 2^44\<close> from the exact \<open>x * (1 - \<alpha>) + y * \<alpha>\<close>, which lies in \<open>[0, 255]\<close>.
\<close>

lemma mix_error:
  assumes "channel_ok x" "channel_ok y" "0 \<le> alpha" "alpha < 1"
  shows "\<bar>toDouble (toDouble (real_of_int x * toDouble (1 - alpha)) + toDouble (real_of_int y * alpha))
          - (real_of_int x * (1 - alpha) + real_of_int y * alpha)\<bar> \<le> 258 / 2 ^ 44"
    and "0 \<le> real_of_int x * (1 - alpha) + real_of_int y * alpha"
    and "real_of_int x * (1 - alpha) + real_of_int y * alpha \<le> 255"
proof -
  define eps :: real where "eps = 1 / 2 ^ 44"
  have eps: "0 < eps" "eps < 1 / 1000" by (simp_all add: eps_def)
  have x: "0 \<le> real_of_int x" "real_of_int x \<le> 255" and y: "0 \<le> real_of_int y" "real_of_int y \<le> 255"
    using assms by (auto simp: channel_ok_def)
  define a where "a = toDouble (1 - alpha)"
  have "\<bar>a - (1 - alpha)\<bar> \<le> eps"
    unfolding a_def eps_def using assms by (intro toDouble_error) simp
  then have a: "1 - alpha - eps \<le> a" "a \<le> 1 - alpha + eps" by linarith+
  have a0: "0 \<le> a" unfolding a_def using assms by (intro toDouble_nonneg) simp
  define t1 where "t1 = real_of_int x * a"
  have t1: "0 \<le> t1" using x a0 by (simp add: t1_def)
  have "real_of_int x * a \<le> real_of_int x * (1 - alpha + eps)" using x a by (intro mult_left_mono) auto
  moreover have "real_of_int x * eps \<le> 255 * eps" using x eps by (intro mult_right_mono) auto
  ultimately have t1u: "t1 \<le> real_of_int x * (1 - alpha) + 255 * eps" by (simp add: t1_def algebra_simps)
  have "real_of_int x * (1 - alpha - eps) \<le> real_of_int x * a" using x a by (intro mult_left_mono) auto
  moreover have "real_of_int x * eps \<le> 255 * eps" using x eps by (intro mult_right_mono) auto
  ultimately have t1l: "real_of_int x * (1 - alpha) - 255 * eps \<le> t1" by (simp add: t1_def algebra_simps)
  have e1: "real_of_int x * (1 - alpha) \<le> 255 * (1 - alpha)" using x assms by (intro mult_right_mono) auto
  have e1l: "0 \<le> real_of_int x * (1 - alpha)" using x assms by simp
  have "t1 < 1024" using t1u e1 assms eps by simp
  then have "\<bar>toDouble t1 - t1\<bar> \<le> eps" unfolding eps_def using t1 by (intro toDouble_error) simp
  then have p1: "t1 - eps \<le> toDouble t1" "toDouble t1 \<le> t1 + eps" by linarith+
  define t2 where "t2 = real_of_int y * alpha"
  have t2: "0 \<le> t2" using y assms by (simp add: t2_def)
  have t2u: "t2 \<le> 255 * alpha" unfolding t2_def using y assms by (intro mult_right_mono) auto
  then have "t2 < 1024" using assms by simp
  then have "\<bar>toDouble t2 - t2\<bar> \<le> eps" unfolding eps_def using t2 by (intro toDouble_error) simp
  then have p2: "t2 - eps \<le> toDouble t2" "toDouble t2 \<le> t2 + eps" by linarith+
  have p0: "0 \<le> toDouble t1" "0 \<le> toDouble t2" using t1 t2 by (auto intro: toDouble_nonneg)
  define t3 where "t3 = toDouble t1 + toDouble t2"
  have t3: "0 \<le> t3" using p0 by (simp add: t3_def)
  have t3u: "t3 \<le> 255 + 257 * eps" using p1 p2 t1u t2u e1 by (simp add: t3_def)
  then have "t3 < 1024" using eps by simp
  then have "\<bar>toDouble t3 - t3\<bar> \<le> eps" unfolding eps_def using t3 by (intro toDouble_error) simp
  then have s: "t3 - eps \<le> toDouble t3" "toDouble t3 \<le> t3 + eps" by linarith+
  define ex where "ex = real_of_int x * (1 - alpha) + t2"
  have "toDouble t3 \<le> ex + 258 * eps" using s p1 p2 t1u by (simp add: t3_def ex_def)
  moreover have "ex - 258 * eps \<le> toDouble t3" using s p1 p2 t1l by (simp add: t3_def ex_def)
  ultimately have "\<bar>toDouble t3 - ex\<bar> \<le> 258 * eps" by linarith
  then show "\<bar>toDouble (toDouble (real_of_int x * toDouble (1 - alpha)) + toDouble (real_of_int y * alpha))
          - (real_of_int x * (1 - alpha) + real_of_int y * alpha)\<bar> \<le> 258 / 2 ^ 44"
    by (simp add: t3_def t1_def t2_def a_def ex_def eps_def)
  show "0 \<le> real_of_int x * (1 - alpha) + real_of_int y * alpha"
    using e1l t2 by (simp add: t2_def)
  show "real_of_int x * (1 - alpha) + real_of_int y * alpha \<le> 255"
    using e1 t2u by (simp add: t2_def)
qed

lemma mathRound_error: "\<bar>real_of_int (mathRound v) - v\<bar> \<le> 1 / 2"
  unfolding mathRound_def by linarith

lemma mathRound_in_range:
  assumes "0 \<le> v" "v \<le> 255"
  shows "channel_ok (mathRound v)"
proof -
  have "0 \<le> \<lfloor>v + 1 / 2\<rfloor>" using assms by simp
  moreover have "\<lfloor>v + 1 / 2\<rfloor> \<le> 255" using assms by (simp add: floor_le_iff)
  ultimately show ?thesis by (simp add: channel_ok_def mathRound_def)
qed

text \<open>
  One channel of the blend against the formula of the specification: the result is in
  \<open>[0, 255]\<close>, within \<open>1 / 2 + 1 / 2^35\<close> of the exact value, and at most one away from the
  rounded exact value.
\<close>

lemma mix_channel:
  assumes "channel_ok x" "channel_ok y" "0 \<le> alpha" "alpha < 1"
  defines "v \<equiv> toDouble (toDouble (real_of_int x * toDouble (1 - alpha)) + toDouble (real_of_int y * alpha))"
  defines "ex \<equiv> real_of_int x * (1 - alpha) + real_of_int y * alpha"
  shows "channel_ok (mathRound v)"
    and "\<bar>real_of_int (mathRound v) - ex\<bar> \<le> 1 / 2 + 1 / 2 ^ 35"
    and "\<bar>mathRound v - clamp255 (mathRound ex)\<bar> \<le> 1"
proof -
  have err: "\<bar>v - ex\<bar> \<le> 258 / 2 ^ 44" and ex: "0 \<le> ex" "ex \<le> 255"
    unfolding v_def ex_def using mix_error [OF assms(1-4)] by auto
  have small: "(258::real) / 2 ^ 44 \<le> 1 / 2 ^ 35" by simp
  have tiny: "(1::real) / 2 ^ 35 < 1 / 4" by simp
  have f: "real_of_int \<lfloor>v + 1 / 2\<rfloor> \<le> v + 1 / 2" "v + 1 / 2 < real_of_int \<lfloor>v + 1 / 2\<rfloor> + 1"
    by linarith+
  have "- 1 < real_of_int \<lfloor>v + 1 / 2\<rfloor>" using f err ex small tiny by linarith
  then have lo: "0 \<le> \<lfloor>v + 1 / 2\<rfloor>" by linarith
  have "real_of_int \<lfloor>v + 1 / 2\<rfloor> < 256" using f err ex small tiny by linarith
  then have hi: "\<lfloor>v + 1 / 2\<rfloor> \<le> 255" by linarith
  show "channel_ok (mathRound v)" using lo hi by (simp add: channel_ok_def mathRound_def)
  show d: "\<bar>real_of_int (mathRound v) - ex\<bar> \<le> 1 / 2 + 1 / 2 ^ 35"
    using mathRound_error [of v] err small by linarith
  have "clamp255 (mathRound ex) = mathRound ex"
    using mathRound_in_range [OF ex] by (simp add: clamp255_def channel_ok_def)
  moreover have "\<bar>real_of_int (mathRound v) - real_of_int (mathRound ex)\<bar> < 2"
    using d mathRound_error [of ex] tiny by linarith
  then have "\<bar>mathRound v - mathRound ex\<bar> \<le> 1" by linarith
  ultimately show "\<bar>mathRound v - clamp255 (mathRound ex)\<bar> \<le> 1" by simp
qed

text \<open>
  C5 (as amended): for all background and foreground colours with channels in \<open>[0, 255]\<close>
  and every opacity \<open>\<alpha> \<ge> 0\<close> (the interface passes \<open>0.1\<close> to \<open>1\<close>): for \<open>\<alpha> \<ge> 1\<close> the result
  is the foreground colour exactly; for \<open>\<alpha> < 1\<close> each channel is \<^verbatim>\<open>Math.round\<close> of
  \<open>background * (1 - \<alpha>) + foreground * \<alpha>\<close> as double arithmetic evaluates it (the
  difference, the two products and the sum each rounded to a double), a number within
  \<open>1 / 2 + 1 / 2^35\<close> of the exact value of that expression; the result is at most one
  away, per channel, from the formula evaluated exactly, and it lies in \<open>[0, 255]\<close>
  without any clamp (the code has none).
\<close>

theorem blendColors_double_rounding:
  assumes "color_ok bg" "color_ok fg" "0 \<le> alpha"
  shows "(alpha \<ge> 1 \<longrightarrow> blendColors bg fg alpha = fg)
         \<and> color_ok (blendColors bg fg alpha)
         \<and> (alpha < 1 \<longrightarrow>
               \<bar>real_of_int (r (blendColors bg fg alpha))
                  - (real_of_int (r bg) * (1 - alpha) + real_of_int (r fg) * alpha)\<bar> \<le> 1 / 2 + 1 / 2 ^ 35
             \<and> \<bar>real_of_int (g (blendColors bg fg alpha))
                  - (real_of_int (g bg) * (1 - alpha) + real_of_int (g fg) * alpha)\<bar> \<le> 1 / 2 + 1 / 2 ^ 35
             \<and> \<bar>real_of_int (b (blendColors bg fg alpha))
                  - (real_of_int (b bg) * (1 - alpha) + real_of_int (b fg) * alpha)\<bar> \<le> 1 / 2 + 1 / 2 ^ 35)
         \<and> \<bar>r (blendColors bg fg alpha) - r (blend_spec bg fg alpha)\<bar> \<le> 1
         \<and> \<bar>g (blendColors bg fg alpha) - g (blend_spec bg fg alpha)\<bar> \<le> 1
         \<and> \<bar>b (blendColors bg fg alpha) - b (blend_spec bg fg alpha)\<bar> \<le> 1"
proof (cases "alpha \<ge> 1")
  case True
  then show ?thesis using assms by (simp add: blendColors_def blend_spec_def color_ok_def)
next
  case False
  then have a: "0 \<le> alpha" "alpha < 1" using assms by auto
  have ch: "channel_ok (r bg)" "channel_ok (g bg)" "channel_ok (b bg)"
           "channel_ok (r fg)" "channel_ok (g fg)" "channel_ok (b fg)"
    using assms by (auto simp: color_ok_def)
  note m = mix_channel [OF ch(1) ch(4) a] mix_channel [OF ch(2) ch(5) a] mix_channel [OF ch(3) ch(6) a]
  have "color_ok (blendColors bg fg alpha)"
    using False m(1,4,7) by (simp add: blendColors_def color_ok_def)
  moreover have "\<bar>real_of_int (r (blendColors bg fg alpha))
                  - (real_of_int (r bg) * (1 - alpha) + real_of_int (r fg) * alpha)\<bar> \<le> 1 / 2 + 1 / 2 ^ 35"
    using False m(2) by (simp add: blendColors_def)
  moreover have "\<bar>real_of_int (g (blendColors bg fg alpha))
                  - (real_of_int (g bg) * (1 - alpha) + real_of_int (g fg) * alpha)\<bar> \<le> 1 / 2 + 1 / 2 ^ 35"
    using False m(5) by (simp add: blendColors_def)
  moreover have "\<bar>real_of_int (b (blendColors bg fg alpha))
                  - (real_of_int (b bg) * (1 - alpha) + real_of_int (b fg) * alpha)\<bar> \<le> 1 / 2 + 1 / 2 ^ 35"
    using False m(8) by (simp add: blendColors_def)
  moreover have "\<bar>r (blendColors bg fg alpha) - r (blend_spec bg fg alpha)\<bar> \<le> 1"
    using False m(3) by (simp add: blendColors_def blend_spec_def)
  moreover have "\<bar>g (blendColors bg fg alpha) - g (blend_spec bg fg alpha)\<bar> \<le> 1"
    using False m(6) by (simp add: blendColors_def blend_spec_def)
  moreover have "\<bar>b (blendColors bg fg alpha) - b (blend_spec bg fg alpha)\<bar> \<le> 1"
    using False m(9) by (simp add: blendColors_def blend_spec_def)
  ultimately show ?thesis using False by blast
qed

theorem blendColors_double_rounding_witness:
  "color_ok \<lparr>r = 0, g = 10, b = 255\<rparr> \<and> color_ok \<lparr>r = 255, g = 20, b = 0\<rparr> \<and> (0::real) \<le> 1 / 2
   \<and> blendColors \<lparr>r = 0, g = 10, b = 255\<rparr> \<lparr>r = 255, g = 20, b = 0\<rparr> (1 / 2)
       = \<lparr>r = 128, g = 15, b = 128\<rparr>
   \<and> blend_spec \<lparr>r = 0, g = 10, b = 255\<rparr> \<lparr>r = 255, g = 20, b = 0\<rparr> (1 / 2)
       = \<lparr>r = 128, g = 15, b = 128\<rparr>
   \<and> color_ok (blendColors \<lparr>r = 0, g = 10, b = 255\<rparr> \<lparr>r = 255, g = 20, b = 0\<rparr> (1 / 2))"
  using blendColors_double_rounding [of "\<lparr>r = 0, g = 10, b = 255\<rparr>" "\<lparr>r = 255, g = 20, b = 0\<rparr>" "1 / 2"]
  by (simp add: color_ok_def channel_ok_def blendColors_def blend_spec_def mathRound_def clamp255_def
      toDouble_zero toDouble_numeral toDouble_halves toDouble_half)

text \<open>The doubles of the smallest opacity: \<^verbatim>\<open>10 / 100\<close>, \<^verbatim>\<open>1 - 0.1\<close> and \<^verbatim>\<open>5 * 0.9\<close>.\<close>

lemma toDouble_tenth: "toDouble (1 / 10) = 7205759403792794 / 2 ^ 56"
  using toDouble_eval [of "- 4" "1 / 10" 7205759403792794]
  by (simp add: powr_minus_divide)

lemma toDouble_nine_tenths:
  "toDouble (1 - 7205759403792794 / 2 ^ 56) = 8106479329266893 / 2 ^ 53"
  using toDouble_eval [of "- 1" "1 - 7205759403792794 / 2 ^ 56" 8106479329266893]
  by (simp add: powr_minus_divide)

lemma toDouble_five_times:
  "toDouble (5 * (8106479329266893 / 2 ^ 53)) = 9 / 2"
  using toDouble_eval [of 2 "5 * (8106479329266893 / 2 ^ 53)" 5066549580791808]
  by (simp add: powr_minus_divide)

text \<open>
  C5 as stated, with the formula evaluated exactly, fails at the smallest opacity of the
  interface, \<^verbatim>\<open>10 / 100\<close> (the double nearest to \<open>0.1\<close>, a little above it): over the
  background \<open>(5, 5, 5)\<close> the foreground \<open>(0, 0, 0)\<close> gives \<open>5\<close> in each channel, because
  \<^verbatim>\<open>1 - alpha\<close> rounds up to the double nearest to \<open>0.9\<close> and \<^verbatim>\<open>5 * 0.9\<close> rounds to \<open>4.5\<close>,
  where the exact value is a little below \<open>4.5\<close> and its rounding is \<open>4\<close>.
\<close>

theorem blendColors_rounding_counterexample:
  "blendColors \<lparr>r = 5, g = 5, b = 5\<rparr> \<lparr>r = 0, g = 0, b = 0\<rparr> (toDouble (10 / 100))
     = \<lparr>r = 5, g = 5, b = 5\<rparr>
   \<and> blend_spec \<lparr>r = 5, g = 5, b = 5\<rparr> \<lparr>r = 0, g = 0, b = 0\<rparr> (toDouble (10 / 100))
     = \<lparr>r = 4, g = 4, b = 4\<rparr>
   \<and> 0 < toDouble (10 / 100) \<and> toDouble (10 / 100) \<le> 1"
proof -
  have a: "toDouble (10 / 100) = 7205759403792794 / 2 ^ 56"
    using toDouble_tenth by simp
  have n1: "toDouble (32425917317067571 / 36028797018963968) = 8106479329266893 / 9007199254740992"
    using toDouble_nine_tenths by simp
  have n2: "toDouble (40532396646334465 / 9007199254740992) = 9 / 2"
    using toDouble_five_times by simp
  show ?thesis
    unfolding a
    by (simp add: blendColors_def blend_spec_def n1 n2
        toDouble_zero toDouble_halves mathRound_def clamp255_def)
qed

section \<open>Properties of hexToRgb\<close>

lemma char_eq_code: "(c = d) = ((of_char c :: nat) = of_char d)" for c d :: char
  by simp

lemma of_char_lt: "(of_char c :: nat) < 256"
proof -
  have "(of_char c :: nat) mod 256 < 256" by simp
  then show ?thesis by (simp only: of_char_mod_256)
qed

lemma hexClass_iff: "hexClass c \<longleftrightarrow> hexDigitChar c"
proof -
  define n where "n = (of_char c :: nat)"
  have u: "of_char (char_of (n - 32)) = (n - 32) mod 256" by simp
  have "n < 256" unfolding n_def by (rule of_char_lt)
  then have m: "(n - 32) mod 256 = n - 32" by simp
  have R: "hexDigitChar c \<longleftrightarrow> (48 \<le> n \<and> n \<le> 57) \<or> (65 \<le> n \<and> n \<le> 70) \<or> (97 \<le> n \<and> n \<le> 102)"
    unfolding hexDigitChar_def by (simp add: char_eq_code [of c] n_def [symmetric]) arith
  have L: "hexClass c \<longleftrightarrow> (48 \<le> n \<and> n \<le> 57) \<or> (65 \<le> n \<and> n \<le> 70) \<or> (97 \<le> n \<and> n \<le> 102)"
    unfolding hexClass_def canonicalize_def Let_def n_def [symmetric]
    by (auto simp: m n_def [symmetric])
  show ?thesis using L R by simp
qed


lemma digitValue_Some_iff: "(\<exists>v. digitValue c = Some v) \<longleftrightarrow> hexClass c"
  by (auto simp: digitValue_def hexClass_def Let_def)

lemma parseInt16_two: 
  assumes "hexClass x" "hexClass y"
  shows "parseInt16 [x, y] = Some (16 * the (digitValue x) + the (digitValue y))"
proof -
  obtain v w where "digitValue x = Some v" "digitValue y = Some w"
    using assms digitValue_Some_iff by blast
  then show ?thesis by (simp add: parseInt16_def)
qed

lemma length2_cases: "length xs = 2 \<Longrightarrow> \<exists>x y. xs = [x, y]"
  by (cases xs; cases "tl xs"; auto)

lemma parseInt16_capture:
  assumes "length cap = 2" "list_all hexClass cap"
  shows "\<exists>v. parseInt16 cap = Some v"
proof -
  obtain x y where "cap = [x, y]" using length2_cases [OF assms(1)] by blast
  then show ?thesis using assms(2) by (simp add: parseInt16_two)
qed

lemma list_all_pieces:
  "list_all P t \<longleftrightarrow> list_all P (take 2 t) \<and> list_all P (take 2 (drop 2 t)) \<and> list_all P (drop 4 t)"
proof -
  have "t = take 2 t @ take 2 (drop 2 t) @ drop 4 t"
    by (metis append_take_drop_id drop_drop numeral_Bit0)
  then have "list_all P t = list_all P (take 2 t @ take 2 (drop 2 t) @ drop 4 t)" by simp
  then show ?thesis by (simp only: list_all_append)
qed

lemma exec_groups:
  "exec [Group hexClass 2, Group hexClass 2, Group hexClass 2] t =
     (if length t = 6 \<and> list_all hexClass t
      then Some [take 2 t, take 2 (drop 2 t), take 2 (drop 4 t)] else None)"
proof (cases "length t = 6")
  case True
  then have "list_all hexClass (drop 4 t) = list_all hexClass (take 2 (drop 4 t))" by simp
  then show ?thesis using True list_all_pieces [of hexClass t] by auto
next
  case False
  then show ?thesis by (auto split: if_splits)
qed

lemma exec_hexPattern:
  "exec hexPattern s = Some caps \<longleftrightarrow>
     (\<exists>t. (s = t \<or> s = CHR ''#'' # t) \<and> length t = 6 \<and> list_all hexClass t
          \<and> caps = [take 2 t, take 2 (drop 2 t), take 2 (drop 4 t)])"
proof -
  define G where "G = [Group hexClass 2, Group hexClass 2, Group hexClass 2]"
  have eg: "exec G t = (if length t = 6 \<and> list_all hexClass t
      then Some [take 2 t, take 2 (drop 2 t), take 2 (drop 4 t)] else None)" for t
    unfolding G_def by (rule exec_groups)
  have hp: "hexPattern = Optional CHR ''#'' # G" by (simp add: hexPattern_def G_def)
  have nh: "\<not> hexClass CHR ''#''" by (simp add: hexClass_def canonicalize_def)
  show ?thesis
  proof (cases s)
    case Nil
    then show ?thesis by (simp add: hp eg)
  next
    case (Cons x xs)
    show ?thesis
    proof (cases "x = CHR ''#''")
      case True
      then have "exec G s = None" using Cons nh by (simp add: eg)
      then have "exec hexPattern s = exec G xs"
        using Cons True by (simp add: hp split: option.splits)
      then show ?thesis using Cons True nh by (auto simp: eg)
    next
      case False
      then have "exec hexPattern s = exec G s" using Cons by (simp add: hp)
      then show ?thesis using Cons False by (auto simp: eg)
    qed
  qed
qed

lemma hexToRgb_matches:
  "(\<exists>v. hexToRgb s = Some v) \<longleftrightarrow> (\<exists>caps. exec hexPattern s = Some caps)"
proof
  assume "\<exists>v. hexToRgb s = Some v"
  then show "\<exists>caps. exec hexPattern s = Some caps"
    by (cases "exec hexPattern s") (auto simp: hexToRgb_def)
next
  assume "\<exists>caps. exec hexPattern s = Some caps"
  then obtain caps where e: "exec hexPattern s = Some caps" by blast
  then obtain t where t: "length t = 6" "list_all hexClass t"
      "caps = [take 2 t, take 2 (drop 2 t), take 2 (drop 4 t)]"
    unfolding exec_hexPattern by blast
  have p: "list_all hexClass (take 2 t)" "list_all hexClass (take 2 (drop 2 t))"
      "list_all hexClass (take 2 (drop 4 t))"
    using t(2) by (auto simp: list_all_iff dest: in_set_takeD in_set_dropD)
  have l: "length (take 2 t) = 2" "length (take 2 (drop 2 t)) = 2" "length (take 2 (drop 4 t)) = 2"
    using t(1) by auto
  obtain v1 v2 v3 where "parseInt16 (take 2 t) = Some v1" "parseInt16 (take 2 (drop 2 t)) = Some v2"
      "parseInt16 (take 2 (drop 4 t)) = Some v3"
    using parseInt16_capture [OF l(1) p(1)] parseInt16_capture [OF l(2) p(2)]
      parseInt16_capture [OF l(3) p(3)] by blast
  then show "\<exists>v. hexToRgb s = Some v"
    by (simp add: hexToRgb_def e t(3))
qed

text \<open>
  C8: hexToRgb returns a value exactly when the string is an optional \<open>#\<close> followed by
  exactly six hexadecimal digits, in either case; on every other string it returns no
  value (\<open>None\<close>, the source's \<^verbatim>\<open>null\<close>).
\<close>

theorem hexToRgb_accepts_iff:
  "(\<exists>v. hexToRgb s = Some v) \<longleftrightarrow>
     (\<exists>ds. length ds = 6 \<and> (\<forall>c \<in> set ds. hexDigitChar c) \<and> (s = ds \<or> s = CHR ''#'' # ds))"
  unfolding hexToRgb_matches exec_hexPattern by (auto simp: list_all_iff hexClass_iff)

theorem hexToRgb_accepts_iff_witness:
  "(\<exists>v. hexToRgb ''#8B00af'' = Some v) \<and> \<not> (\<exists>v. hexToRgb ''#8B00a'' = Some v)"
proof -
  have "\<exists>ds. length ds = 6 \<and> (\<forall>c \<in> set ds. hexDigitChar c)
          \<and> (''#8B00af'' = ds \<or> ''#8B00af'' = CHR ''#'' # ds)"
    by (rule exI [of _ "''8B00af''"]) (simp add: hexDigitChar_def)
  moreover have "\<not> (\<exists>ds. length ds = 6 \<and> (\<forall>c \<in> set ds. hexDigitChar c)
          \<and> (''#8B00a'' = ds \<or> ''#8B00a'' = CHR ''#'' # ds))"
  proof
    assume "\<exists>ds. length ds = 6 \<and> (\<forall>c \<in> set ds. hexDigitChar c)
          \<and> (''#8B00a'' = ds \<or> ''#8B00a'' = CHR ''#'' # ds)"
    then obtain ds where l: "length ds = 6" and h: "\<forall>c \<in> set ds. hexDigitChar c"
      and e: "''#8B00a'' = ds \<or> ''#8B00a'' = CHR ''#'' # ds" by blast
    from e show False
    proof
      assume "''#8B00a'' = ds"
      then have "CHR ''#'' \<in> set ds" by (simp only: list.set_intros(1) flip: \<open>''#8B00a'' = ds\<close>)
      with h have "hexDigitChar CHR ''#''" by blast
      then show False by (simp add: hexDigitChar_def)
    next
      assume "''#8B00a'' = CHR ''#'' # ds"
      then have "length ds = 5" by (cases ds) auto
      with l show False by simp
    qed
  qed
  ultimately show ?thesis
    using hexToRgb_accepts_iff [of "''#8B00af''"] hexToRgb_accepts_iff [of "''#8B00a''"]
    by blast
qed

lemma digitValue_range: "digitValue c = Some v \<Longrightarrow> 0 \<le> v \<and> v \<le> 15"
  by (auto simp: digitValue_def Let_def split: if_splits)

lemma parseInt16_capture_range:
  assumes "length cap = 2" "list_all hexClass cap" "parseInt16 cap = Some v"
  shows "channel_ok v"
proof -
  obtain x y where c: "cap = [x, y]" using length2_cases [OF assms(1)] by blast
  then have h: "hexClass x" "hexClass y" using assms(2) by simp_all
  obtain vx vy where d: "digitValue x = Some vx" "digitValue y = Some vy"
    using h digitValue_Some_iff by blast
  have "v = 16 * vx + vy" using assms(3) parseInt16_two [OF h] d c by simp
  moreover have "0 \<le> vx \<and> vx \<le> 15" "0 \<le> vy \<and> vy \<le> 15"
    using d digitValue_range by blast+
  ultimately show ?thesis by (simp add: channel_ok_def)
qed

text \<open>A parsed colour has its three channels in \<open>[0, 255]\<close>.\<close>

lemma hexToRgb_color_ok:
  assumes "hexToRgb s = Some c"
  shows "color_ok c"
proof -
  obtain caps where e: "exec hexPattern s = Some caps"
    using assms by (cases "exec hexPattern s") (auto simp: hexToRgb_def)
  then obtain t where t: "length t = 6" "list_all hexClass t"
      "caps = [take 2 t, take 2 (drop 2 t), take 2 (drop 4 t)]"
    unfolding exec_hexPattern by blast
  have p: "list_all hexClass (take 2 t)" "list_all hexClass (take 2 (drop 2 t))"
      "list_all hexClass (take 2 (drop 4 t))"
    using t(2) by (auto simp: list_all_iff dest: in_set_takeD in_set_dropD)
  have l: "length (take 2 t) = 2" "length (take 2 (drop 2 t)) = 2" "length (take 2 (drop 4 t)) = 2"
    using t(1) by auto
  obtain v1 v2 v3 where v: "parseInt16 (take 2 t) = Some v1" "parseInt16 (take 2 (drop 2 t)) = Some v2"
      "parseInt16 (take 2 (drop 4 t)) = Some v3"
    using parseInt16_capture [OF l(1) p(1)] parseInt16_capture [OF l(2) p(2)]
      parseInt16_capture [OF l(3) p(3)] by blast
  have "c = \<lparr>r = v1, g = v2, b = v3\<rparr>"
    using assms by (simp add: hexToRgb_def e t(3) v)
  moreover have "channel_ok v1" "channel_ok v2" "channel_ok v3"
    using parseInt16_capture_range [OF l(1) p(1) v(1)] parseInt16_capture_range [OF l(2) p(2) v(2)]
      parseInt16_capture_range [OF l(3) p(3) v(3)] by simp_all
  ultimately show ?thesis by (simp add: color_ok_def)
qed

text \<open>So has every entry of the palette that processImage maps to.\<close>

lemma paletteRgb_color_ok: "p \<in> set (paletteRgb usePal pal) \<Longrightarrow> color_ok p"
proof -
  assume "p \<in> set (paletteRgb usePal pal)"
  then obtain h c where "hexToRgb h = Some c" "p = \<lparr>r = r c, g = g c, b = b c, hex = h\<rparr>"
    by (auto simp: paletteRgb_def map_filter_def split: if_splits)
  then show "color_ok p" using hexToRgb_color_ok [of h c] by (simp add: color_ok_def)
qed

section \<open>Properties of removeColorFromPalette\<close>

lemma filter_index_from:
  "map fst (filter (\<lambda>(v, i). int i \<noteq> idx) (zip xs [n..<n + length xs]))
   = (if idx < int n then xs else take (nat idx - n) xs @ drop (Suc (nat idx - n)) xs)"
proof (induction xs arbitrary: n)
  case Nil
  then show ?case by simp
next
  case (Cons x xs)
  have a: "[n..<n + length (x # xs)] = n # [Suc n..<Suc n + length xs]"
    by (simp add: upt_rec)
  show ?case
  proof (cases "idx < int n")
    case True
    then show ?thesis unfolding a using Cons.IH [of "Suc n"] by simp
  next
    case False
    show ?thesis
    proof (cases "idx = int n")
      case True
      then show ?thesis unfolding a using Cons.IH [of "Suc n"] by simp
    next
      case ne: False
      with False have gt: "int n < idx" by simp
      then have "nat idx - n = Suc (nat idx - Suc n)" by linarith
      then show ?thesis unfolding a using Cons.IH [of "Suc n"] gt ne by simp
    qed
  qed
qed

lemma filterIndexed_remove:
  "filterIndexed (\<lambda>_ i. int i \<noteq> idx) xs
   = (if 0 \<le> idx \<and> idx < int (length xs) then take (nat idx) xs @ drop (Suc (nat idx)) xs else xs)"
  using filter_index_from [of idx xs 0] by (auto simp: filterIndexed_def)

text \<open>
  C9: a request to remove a palette colour when the palette has 2 or fewer entries is
  rejected and the configuration is left as it was; a removal from a palette of more
  than 2 entries removes exactly the entry at that index (and nothing when there is no
  entry at the index); so a palette of at least 2 entries keeps at least 2.
\<close>

theorem removeColorFromPalette_keeps_two:
  "(length (palette cfg) \<le> 2 \<longrightarrow> removeColorFromPalette cfg idx = cfg)
   \<and> (2 < length (palette cfg) \<and> 0 \<le> idx \<and> idx < int (length (palette cfg)) \<longrightarrow>
        removeColorFromPalette cfg idx
          = cfg\<lparr>palette := take (nat idx) (palette cfg) @ drop (Suc (nat idx)) (palette cfg)\<rparr>
        \<and> length (palette (removeColorFromPalette cfg idx)) = length (palette cfg) - 1)
   \<and> (idx < 0 \<or> int (length (palette cfg)) \<le> idx \<longrightarrow> removeColorFromPalette cfg idx = cfg)
   \<and> (2 \<le> length (palette cfg) \<longrightarrow> 2 \<le> length (palette (removeColorFromPalette cfg idx)))"
  unfolding removeColorFromPalette_def filterIndexed_remove by auto

theorem removeColorFromPalette_keeps_two_witness:
  "removeColorFromPalette \<lparr>rows = 80, cols = 60, showGrid = True, showNumbers = False, contrast = 1,
       usePalette = False, palette = [''#8B0000'', ''#F5F5DC'', ''#000080'']\<rparr> 1
   = \<lparr>rows = 80, cols = 60, showGrid = True, showNumbers = False, contrast = 1,
       usePalette = False, palette = [''#8B0000'', ''#000080'']\<rparr>
   \<and> removeColorFromPalette \<lparr>rows = 80, cols = 60, showGrid = True, showNumbers = False, contrast = 1,
       usePalette = False, palette = [''#8B0000'', ''#000080'']\<rparr> 1
   = \<lparr>rows = 80, cols = 60, showGrid = True, showNumbers = False, contrast = 1,
       usePalette = False, palette = [''#8B0000'', ''#000080'']\<rparr>"
  using removeColorFromPalette_keeps_two
          [of "\<lparr>rows = 80, cols = 60, showGrid = True, showNumbers = False, contrast = 1,
                usePalette = False, palette = [''#8B0000'', ''#F5F5DC'', ''#000080'']\<rparr>" 1]
        removeColorFromPalette_keeps_two
          [of "\<lparr>rows = 80, cols = 60, showGrid = True, showNumbers = False, contrast = 1,
                usePalette = False, palette = [''#8B0000'', ''#000080'']\<rparr>" 1]
  by simp

section \<open>Properties of the palette mapper\<close>







lemma div512_differs:
  assumes "512 \<le> (w::int)"
  shows "(w * (x * x)) div 512 \<noteq> (w * ((x - 1) * (x - 1))) div 512"
proof (cases "1 \<le> x")
  case True
  have "w * (x * x) = w * ((x - 1) * (x - 1)) + w * (2 * x - 1)" by (simp add: algebra_simps)
  moreover have "w * 1 \<le> w * (2 * x - 1)" using True assms by (intro mult_left_mono) auto
  ultimately have "w * ((x - 1) * (x - 1)) + 512 \<le> w * (x * x)" using assms by linarith
  then have "(w * ((x - 1) * (x - 1)) + 512) div 512 \<le> (w * (x * x)) div 512"
    by (rule zdiv_mono1) simp
  then show ?thesis by simp
next
  case False
  have "w * ((x - 1) * (x - 1)) = w * (x * x) + w * (1 - 2 * x)" by (simp add: algebra_simps)
  moreover have "w * 1 \<le> w * (1 - 2 * x)" using False assms by (intro mult_left_mono) auto
  ultimately have "w * (x * x) + 512 \<le> w * ((x - 1) * (x - 1))" using assms by linarith
  then have "(w * (x * x) + 512) div 512 \<le> (w * ((x - 1) * (x - 1))) div 512"
    by (rule zdiv_mono1) simp
  then show ?thesis by simp
qed

text \<open>
  No colour is at the same distance from \<open>(0, 0, 0)\<close> and from \<open>(0, 0, 1)\<close>: the blue terms
  of the two radicands differ by at least one, and different radicands give different
  doubles.
\<close>

lemma black_and_blue1_never_tie:
  assumes "color_ok c"
  shows "getColorDistance c \<lparr>r = 0, g = 0, b = 0, hex = h0\<rparr>
           \<noteq> getColorDistance c \<lparr>r = 0, g = 0, b = 1, hex = h1\<rparr>"
proof -
  have ok: "color_ok \<lparr>r = 0, g = 0, b = 0, hex = h0\<rparr>" "color_ok \<lparr>r = 0, g = 0, b = 1, hex = h1\<rparr>"
    by (simp_all add: color_ok_def channel_ok_def)
  have w: "512 \<le> 1534 - r c" using assms by (simp add: color_ok_def channel_ok_def)
  have "distanceRadicand c \<lparr>r = 0, g = 0, b = 0, hex = h0\<rparr>
          \<noteq> distanceRadicand c \<lparr>r = 0, g = 0, b = 1, hex = h1\<rparr>"
    unfolding distanceRadicand_int [OF assms ok(1)] distanceRadicand_int [OF assms ok(2)]
    using div512_differs [OF w, of "b c"] by simp
  then show ?thesis by (simp add: getColorDistance_eq_iff [OF assms ok(1) assms ok(2)])
qed

section \<open>Properties of the quantizer\<close>

lemma rgbToHexNumber_Num: "rgbToHexNumber (Num x) (Num y) (Num z) = rgbToHex x y z"
  by (simp add: rgbToHexNumber_def rgbToHex_def shiftLeftNumber_def plusNumber_def toString16Number_def)

lemma rgbToHexNumber_NaN: "rgbToHexNumber NaN NaN NaN = ''#aN''"
  by (simp add: rgbToHexNumber_def shiftLeftNumber_def plusNumber_def toString16Number_def)

lemma insort_key_replicate: "insort_key f x (replicate n x) = replicate (Suc n) x"
  by (cases n) simp_all

lemma sort_key_replicate: "sort_key f (replicate n x) = replicate n x"
proof (induction n)
  case 0
  then show ?case by simp
next
  case (Suc n)
  have "sort_key f (replicate (Suc n) x) = insort_key f x (sort_key f (replicate n x))"
    by simp
  also have "\<dots> = replicate (Suc n) x"
    unfolding Suc by (rule insort_key_replicate)
  finally show ?case .
qed

lemma foldl_sum_replicate:
  "foldl (\<lambda>a p. a + chan p) a0 (replicate n x) = a0 + int n * chan x"
  by (induction n arbitrary: a0) (simp_all add: algebra_simps)

lemma roundedMean_replicate:
  assumes "0 < n" "\<bar>chan x\<bar> < 2 ^ 53"
  shows "roundedMean chan (replicate n x) = Num (chan x)"
proof -
  have "real_of_int (int n * chan x) / real n = real_of_int (chan x)"
    using assms by simp
  then have "mathRound (toDouble (real_of_int (int n * chan x) / real n)) = chan x"
    using assms(2) by (simp add: mathRound_def toDouble_of_int)
  then show ?thesis using assms by (simp add: roundedMean_def foldl_sum_replicate)
qed

lemma color_ok_channels:
  assumes "color_ok c"
  shows "\<bar>r c\<bar> < 2 ^ 53" "\<bar>g c\<bar> < 2 ^ 53" "\<bar>b c\<bar> < 2 ^ 53"
  using assms by (auto simp: color_ok_def channel_ok_def)

lemma roundedMean_empty: "roundedMean chan [] = NaN"
  by (simp add: roundedMean_def)

lemma medianCut_empty:
  "medianCutQuantization [] depth = [\<lparr>r = NaN, g = NaN, b = NaN\<rparr>]"
  by (cases depth) (simp_all add: roundedMean_empty)

lemma medianCut_uniform:
  assumes "2 ^ depth \<le> n" and ok: "color_ok c"
  shows "medianCutQuantization (replicate n c) depth
           = replicate (2 ^ depth) \<lparr>r = Num (r c), g = Num (g c), b = Num (b c)\<rparr>"
  using assms(1)
proof (induction depth arbitrary: n)
  case 0
  then have n: "0 < n" by simp
  show ?case
    using n color_ok_channels [OF ok] roundedMean_replicate [of n r c]
      roundedMean_replicate [of n g c] roundedMean_replicate [of n b c] by simp
next
  case (Suc depth)
  then have n: "2 * 2 ^ depth \<le> n" by simp
  have p: "0 < (2::nat) ^ depth" by simp
  from n p have lo: "2 ^ depth \<le> n div 2" and hi: "2 ^ depth \<le> n - n div 2" and pos: "0 < n"
    by linarith+
  have "medianCutQuantization (replicate n c) (Suc depth)
          = medianCutQuantization (replicate (n div 2) c) depth
            @ medianCutQuantization (replicate (n - n div 2) c) depth"
    using pos by (simp add: sort_key_replicate Let_def min_def)
  then show ?case using Suc.IH [OF lo] Suc.IH [OF hi] by (simp add: replicate_add [symmetric])
qed

lemma medianCut_single:
  assumes "color_ok c"
  shows "medianCutQuantization [c] depth
     = replicate depth \<lparr>r = NaN, g = NaN, b = NaN\<rparr> @ [\<lparr>r = Num (r c), g = Num (g c), b = Num (b c)\<rparr>]"
proof (induction depth)
  case 0
  have n: "0 < (1::nat)" by simp
  show ?case
    using n color_ok_channels [OF assms] roundedMean_replicate [of 1 r c]
      roundedMean_replicate [of 1 g c] roundedMean_replicate [of 1 b c] by simp
next
  case (Suc depth)
  then show ?case by (simp add: medianCut_empty Let_def)
qed

lemma uniqueInOrder_seen:
  "foldl (\<lambda>seen x. if x \<in> set seen then seen else seen @ [x]) [h] (replicate k h) = [h]"
  by (induction k) simp_all

lemma uniqueInOrder_replicate: "0 < k \<Longrightarrow> uniqueInOrder (replicate k h) = [h]"
  by (cases k) (simp_all add: uniqueInOrder_def uniqueInOrder_seen)

text \<open>
  A sample of one colour that leaves no bucket empty (at least \<open>2 ^ depth\<close> pixels) gives
  the palette of that one colour.
\<close>

lemma quantizedPalette_uniform_large:
  assumes "2 ^ depth \<le> n" "color_ok c"
  shows "quantizedPalette (replicate n c) depth = [rgbToHex (r c) (g c) (b c)]"
  unfolding quantizedPalette_def medianCut_uniform [OF assms]
  by (simp add: rgbToHexNumber_Num uniqueInOrder_replicate)

lemma rgbToHex_example: "rgbToHex 10 20 30 = ''#0a141e''"
  by (simp add: rgbToHex_def toString16_def shiftLeft_def toInt32_def hexDigits.simps digitChar_def)

text \<open>
  C1 says that a sample of one colour repeated \<open>n \<ge> 1\<close> times gives, at any depth, the
  palette of that one colour. For the sample of a single pixel \<open>(10, 20, 30)\<close>, at the
  depth 4 that extractPaletteFromImage uses, the code returns two entries: the string
  \<open>#aN\<close> of the \<^verbatim>\<open>NaN\<close> means of the empty buckets, and then the colour.
\<close>

theorem extractPaletteFromImage_single_pixel:
  "extractPaletteFromImage [\<lparr>r = 10, g = 20, b = 30\<rparr>] = [''#aN'', ''#0a141e'']"
proof -
  have ok: "color_ok \<lparr>r = 10, g = 20, b = (30::int)\<rparr>" by (simp add: color_ok_def channel_ok_def)
  show ?thesis
    unfolding extractPaletteFromImage_def quantizedPalette_def medianCut_single [OF ok]
    by (simp add: rgbToHexNumber_Num rgbToHexNumber_NaN rgbToHex_example uniqueInOrder_def
        eval_nat_numeral)
qed

section \<open>Properties of the paint updater\<close>

lemma elemAt_int: "elemAt xs (int y) = (if y < length xs then Some (xs ! y) else None)"
  by (simp add: elemAt_def)

text \<open>The copy-on-write step keeps the invariant and yields a row of newPixels' own.\<close>

lemma ownRow_inv:
  assumes inv: "frameInv s0 s" "rowsInv s0 old s" "cellsInv s0 old P D s"
    and alloc: "oldAllocated s0 old" and prev: "prev < nextRef s0" "gridArr s0 prev = old"
    and y: "y < length old"
  shows "\<exists>row s1. ownRow prev (nextRef s0) (int y) s = Inr (row, s1)
           \<and> frameInv s0 s1 \<and> rowsInv s0 old s1 \<and> cellsInv s0 old P D s1
           \<and> gridArr s1 (nextRef s0) ! y = row \<and> nextRef s0 \<le> row \<and> row < nextRef s1"
proof -
  let ?np = "nextRef s0"
  have gp: "gridArr s prev = old" using inv(1) prev by (simp add: frameInv_def)
  have len: "length (gridArr s ?np) = length old" using inv(2) by (simp add: rowsInv_def)
  have oy: "old ! y < ?np" using alloc y by (simp add: oldAllocated_def)
  have lt: "?np < nextRef s" using inv(1) by (simp add: frameInv_def)
  show ?thesis
  proof (cases "gridArr s ?np ! y = old ! y")
    case False
    then have own: "?np \<le> gridArr s ?np ! y" "gridArr s ?np ! y < nextRef s"
      using inv(2) y by (auto simp: rowsInv_def)
    have "ownRow prev ?np (int y) s = Inr (gridArr s ?np ! y, s)"
      using False y len gp by (simp add: ownRow_def elemAt_int)
    then show ?thesis using inv own by blast
  next
    case True
    define s1 where "s1 = s\<lparr>rowArr := (rowArr s)(nextRef s := rowArr s (old ! y)),
        nextRef := Suc (nextRef s),
        gridArr := (gridArr s)(?np := (gridArr s ?np)[y := nextRef s])\<rparr>"
    have run: "ownRow prev ?np (int y) s = Inr (nextRef s, s1)"
      using True y len gp by (simp add: ownRow_def elemAt_int newRowArr_def s1_def)
    have proj: "pixelObj s1 = pixelObj s" "nextRef s1 = Suc (nextRef s)"
      "rowArr s1 = (rowArr s)(nextRef s := rowArr s (old ! y))"
      "gridArr s1 = (gridArr s)(?np := (gridArr s ?np)[y := nextRef s])"
      by (simp_all add: s1_def)
    have ro: "rowArr s (old ! y) = rowArr s0 (old ! y)" using inv(1) oy by (simp add: frameInv_def)
    have f: "frameInv s0 s1"
      using inv(1) by (auto simp: frameInv_def proj)
    have rowy: "gridArr s1 ?np ! y = nextRef s" using y len by (simp add: proj)
    have rowo: "gridArr s1 ?np ! y' = gridArr s ?np ! y'" if "y' \<noteq> y" for y'
      using that by (simp add: proj)
    have below: "gridArr s ?np ! y' < nextRef s" if "y' < length old" for y'
      using inv(2) that alloc lt unfolding rowsInv_def oldAllocated_def
      by (metis less_trans nth_mem)
    have rowArr_o: "rowArr s1 (gridArr s1 ?np ! y') = rowArr s (gridArr s ?np ! y')"
      if "y' < length old" for y'
    proof (cases "y' = y")
      case True
      then show ?thesis using rowy \<open>gridArr s ?np ! y = old ! y\<close> by (simp add: proj)
    next
      case False
      then show ?thesis using below [OF that] rowo [OF False] by (simp add: proj)
    qed
    have r: "rowsInv s0 old s1"
      unfolding rowsInv_def
    proof (intro conjI allI impI)
      show "length (gridArr s1 ?np) = length old" using len by (simp add: proj)
    next
      fix y' assume "y' < length old"
      then show "gridArr s1 ?np ! y' = old ! y' \<or>
          (?np \<le> gridArr s1 ?np ! y' \<and> gridArr s1 ?np ! y' < nextRef s1)"
        using inv(2) lt rowy rowo [of y'] unfolding rowsInv_def proj(2)
        by (cases "y' = y") (auto simp: less_Suc_eq)
    next
      fix y1 y2 assume a: "y1 < length old" "y2 < length old" "y1 \<noteq> y2" "?np \<le> gridArr s1 ?np ! y1"
      show "gridArr s1 ?np ! y1 \<noteq> gridArr s1 ?np ! y2"
      proof (cases "y1 = y")
        case True
        then show ?thesis using a rowy rowo [of y2] below [of y2] by simp
      next
        case n1: False
        show ?thesis
        proof (cases "y2 = y")
          case True
          then show ?thesis using a rowy rowo [of y1] below [of y1] by simp
        next
          case False
          then show ?thesis using a n1 rowo [of y1] rowo [of y2] inv(2)
            unfolding rowsInv_def by simp
        qed
      qed
    next
      fix y' assume "y' < length old"
      then show "length (rowArr s1 (gridArr s1 ?np ! y')) = length (rowArr s0 (old ! y'))"
        using inv(2) by (simp add: rowArr_o rowsInv_def)
    qed
    have c: "cellsInv s0 old P D s1"
      unfolding cellsInv_def
    proof (intro allI impI)
      fix y' x assume a: "y' < length old" "x < length (rowArr s0 (old ! y'))"
      have "(case (if (int y', int x) \<in> D then P (pixelObj s0 (rowArr s0 (old ! y') ! x)) else None) of
           Some px \<Rightarrow> ?np \<le> rowArr s (gridArr s ?np ! y') ! x
                      \<and> rowArr s (gridArr s ?np ! y') ! x < nextRef s
                      \<and> pixelObj s (rowArr s (gridArr s ?np ! y') ! x) = px
         | None \<Rightarrow> rowArr s (gridArr s ?np ! y') ! x = rowArr s0 (old ! y') ! x)"
        using inv(3) a unfolding cellsInv_def by blast
      then show "(case (if (int y', int x) \<in> D then P (pixelObj s0 (rowArr s0 (old ! y') ! x)) else None) of
           Some px \<Rightarrow> ?np \<le> rowArr s1 (gridArr s1 ?np ! y') ! x
                      \<and> rowArr s1 (gridArr s1 ?np ! y') ! x < nextRef s1
                      \<and> pixelObj s1 (rowArr s1 (gridArr s1 ?np ! y') ! x) = px
         | None \<Rightarrow> rowArr s1 (gridArr s1 ?np ! y') ! x = rowArr s0 (old ! y') ! x)"
        unfolding rowArr_o [OF a(1)] proj(1) proj(2)
        by (auto split: option.splits if_splits)
    qed
    show ?thesis using run f r c rowy lt by (auto simp: proj)
  qed
qed


text \<open>Writing a fresh pixel object into a row of newPixels' own keeps the invariant.\<close>

lemma writeCell_inv:
  assumes inv: "frameInv s0 s1" "rowsInv s0 old s1" "cellsInv s0 old P D s1"
    and y: "y < length old" and x: "x < length (rowArr s0 (old ! y))"
    and own: "nextRef s0 \<le> gridArr s1 (nextRef s0) ! y"
    and new: "(int y, int x) \<notin> D" "P (pixelObj s0 (rowArr s0 (old ! y) ! x)) = Some px"
    and s2: "s2 = (snd (newPixelObj px s1))\<lparr>rowArr := (rowArr (snd (newPixelObj px s1)))
               (gridArr s1 (nextRef s0) ! y :=
                  (rowArr (snd (newPixelObj px s1)) (gridArr s1 (nextRef s0) ! y))[x := fst (newPixelObj px s1)])\<rparr>"
  shows "frameInv s0 s2 \<and> rowsInv s0 old s2 \<and> cellsInv s0 old P (insert (int y, int x) D) s2"
proof -
  let ?np = "nextRef s0"
  let ?row = "gridArr s1 ?np ! y"
  have proj: "pixelObj s2 = (pixelObj s1)(nextRef s1 := px)" "nextRef s2 = Suc (nextRef s1)"
    "rowArr s2 = (rowArr s1)(?row := (rowArr s1 ?row)[x := nextRef s1])"
    "gridArr s2 = gridArr s1"
    by (simp_all add: s2 newPixelObj_def)
  have lt: "?np < nextRef s1" using inv(1) by (simp add: frameInv_def)
  have f: "frameInv s0 s2"
    using inv(1) own by (auto simp: frameInv_def proj)
  have other: "gridArr s1 ?np ! y' \<noteq> ?row" if "y' < length old" "y' \<noteq> y" for y'
    using inv(2) that y own unfolding rowsInv_def by metis
  have leny: "length (rowArr s1 ?row) = length (rowArr s0 (old ! y))"
    using inv(2) y by (simp add: rowsInv_def)
  have r: "rowsInv s0 old s2"
    using inv(2) unfolding rowsInv_def proj by (auto simp: less_Suc_eq)
  have c: "cellsInv s0 old P (insert (int y, int x) D) s2"
    unfolding cellsInv_def
  proof (intro allI impI)
    fix y' x' assume a: "y' < length old" "x' < length (rowArr s0 (old ! y'))"
    have prevc: "(case (if (int y', int x') \<in> D then P (pixelObj s0 (rowArr s0 (old ! y') ! x')) else None) of
           Some px \<Rightarrow> ?np \<le> rowArr s1 (gridArr s1 ?np ! y') ! x'
                      \<and> rowArr s1 (gridArr s1 ?np ! y') ! x' < nextRef s1
                      \<and> pixelObj s1 (rowArr s1 (gridArr s1 ?np ! y') ! x') = px
         | None \<Rightarrow> rowArr s1 (gridArr s1 ?np ! y') ! x' = rowArr s0 (old ! y') ! x')"
      using inv(3) a unfolding cellsInv_def by blast
    show "(case (if (int y', int x') \<in> insert (int y, int x) D
                 then P (pixelObj s0 (rowArr s0 (old ! y') ! x')) else None) of
           Some px \<Rightarrow> ?np \<le> rowArr s2 (gridArr s2 ?np ! y') ! x'
                      \<and> rowArr s2 (gridArr s2 ?np ! y') ! x' < nextRef s2
                      \<and> pixelObj s2 (rowArr s2 (gridArr s2 ?np ! y') ! x') = px
         | None \<Rightarrow> rowArr s2 (gridArr s2 ?np ! y') ! x' = rowArr s0 (old ! y') ! x')"
    proof (cases "y' = y")
      case False
      then have "rowArr s2 (gridArr s2 ?np ! y') = rowArr s1 (gridArr s1 ?np ! y')"
        using other [OF a(1)] by (simp add: proj)
      moreover have "(int y', int x') \<in> insert (int y, int x) D \<longleftrightarrow> (int y', int x') \<in> D"
        using False by simp
      ultimately show ?thesis using prevc
        by (auto simp: proj split: option.splits if_splits)
    next
      case True
      show ?thesis
      proof (cases "x' = x")
        case xe: True
        have "rowArr s2 (gridArr s2 ?np ! y') ! x' = nextRef s1"
          using True xe x leny by (simp add: proj)
        then show ?thesis using True xe new lt by (simp add: proj)
      next
        case False
        then have "rowArr s2 (gridArr s2 ?np ! y') ! x' = rowArr s1 (gridArr s1 ?np ! y') ! x'"
          using True by (simp add: proj)
        moreover have "(int y', int x') \<in> insert (int y, int x) D \<longleftrightarrow> (int y', int x') \<in> D"
          using False by simp
        ultimately show ?thesis using prevc
          by (auto simp: proj split: option.splits if_splits)
      qed
    qed
  qed
  show ?thesis using f r c by simp
qed

lemma cellsInv_insert_same:
  assumes "cellsInv s0 old P D s"
    and "\<And>y x. y < length old \<Longrightarrow> x < length (rowArr s0 (old ! y)) \<Longrightarrow> t = (int y, int x)
           \<Longrightarrow> P (pixelObj s0 (rowArr s0 (old ! y) ! x)) = None"
  shows "cellsInv s0 old P (insert t D) s"
  unfolding cellsInv_def
proof (intro allI impI)
  fix y x assume a: "y < length old" "x < length (rowArr s0 (old ! y))"
  have p: "(case (if (int y, int x) \<in> D then P (pixelObj s0 (rowArr s0 (old ! y) ! x)) else None) of
           Some px \<Rightarrow> nextRef s0 \<le> rowArr s (gridArr s (nextRef s0) ! y) ! x
                      \<and> rowArr s (gridArr s (nextRef s0) ! y) ! x < nextRef s
                      \<and> pixelObj s (rowArr s (gridArr s (nextRef s0) ! y) ! x) = px
         | None \<Rightarrow> rowArr s (gridArr s (nextRef s0) ! y) ! x = rowArr s0 (old ! y) ! x)"
    using assms(1) a unfolding cellsInv_def by blast
  show "(case (if (int y, int x) \<in> insert t D then P (pixelObj s0 (rowArr s0 (old ! y) ! x)) else None) of
           Some px \<Rightarrow> nextRef s0 \<le> rowArr s (gridArr s (nextRef s0) ! y) ! x
                      \<and> rowArr s (gridArr s (nextRef s0) ! y) ! x < nextRef s
                      \<and> pixelObj s (rowArr s (gridArr s (nextRef s0) ! y) ! x) = px
         | None \<Rightarrow> rowArr s (gridArr s (nextRef s0) ! y) ! x = rowArr s0 (old ! y) ! x)"
  proof (cases "t = (int y, int x)")
    case True
    then have "P (pixelObj s0 (rowArr s0 (old ! y) ! x)) = None" using assms(2) a by blast
    then show ?thesis using p by (auto split: option.splits if_splits)
  next
    case False
    then show ?thesis using p by (auto split: option.splits if_splits)
  qed
qed

lemma changedInv_insert_same:
  assumes "changedInv s0 old P D changed"
    and "\<And>y x. y < length old \<Longrightarrow> x < length (rowArr s0 (old ! y)) \<Longrightarrow> t = (int y, int x)
           \<Longrightarrow> P (pixelObj s0 (rowArr s0 (old ! y) ! x)) = None"
  shows "changedInv s0 old P (insert t D) changed"
  using assms unfolding changedInv_def by (metis insert_iff)

lemma changedInv_insert_Some:
  assumes "y < length old" "x < length (rowArr s0 (old ! y))"
    "P (pixelObj s0 (rowArr s0 (old ! y) ! x)) = Some px"
  shows "changedInv s0 old P (insert (int y, int x) D) True"
  using assms unfolding changedInv_def by (metis insertI1 option.distinct(1))


lemma paintTarget_in_bounds:
  assumes "targetY \<ge> 0 \<and> targetY < rows config \<and> targetX \<ge> 0 \<and> targetX < cols config"
    and "ownRow prev newPixels targetY s = Inr (row, s1)"
    and "elemAt (rowArr s1 row) targetX = Some cur"
  shows "paintTarget config paintRgb brushOpacity prev newPixels targetY targetX (s, changed) =
     (case paintResult paintRgb brushOpacity (pixelObj s1 cur) of
        None \<Rightarrow> Inr (s1, changed)
      | Some px \<Rightarrow>
          Inr ((snd (newPixelObj px s1))\<lparr>rowArr := (rowArr (snd (newPixelObj px s1)))
                 (row := (rowArr (snd (newPixelObj px s1)) row)[nat targetX := fst (newPixelObj px s1)])\<rparr>,
               True))"
  using assms by (simp add: paintTarget_def paintResult_def Let_def split_def)

lemma paintTarget_out_of_bounds:
  assumes "\<not> (targetY \<ge> 0 \<and> targetY < rows config \<and> targetX \<ge> 0 \<and> targetX < cols config)"
  shows "paintTarget config paintRgb brushOpacity prev newPixels targetY targetX (s, changed)
           = Inr (s, changed)"
  unfolding paintTarget_def by (simp only: prod.case if_not_P [OF assms])

lemma paintTarget_no_cell:
  assumes "targetY \<ge> 0 \<and> targetY < rows config \<and> targetX \<ge> 0 \<and> targetX < cols config"
    and "ownRow prev newPixels targetY s = Inr (row, s1)"
    and "elemAt (rowArr s1 row) targetX = None"
  shows "paintTarget config paintRgb brushOpacity prev newPixels targetY targetX (s, changed)
           = Inr (s1, changed)"
  using assms by (simp add: paintTarget_def)

text \<open>
  A target that passes the bounds check while the grid has no such row: both
  \<^verbatim>\<open>newPixels[targetY]\<close> and \<^verbatim>\<open>prev[targetY]\<close> are \<^verbatim>\<open>undefined\<close>, and the spread throws.
\<close>

lemma paintTarget_throws:
  assumes inv: "paintInv s0 old P D st"
    and prev: "prev < nextRef s0" "gridArr s0 prev = old"
    and miss: "rowMissing config (length old) (ty, tx)"
  shows "paintTarget config paintRgb brushOpacity prev (nextRef s0) ty tx st = Inl TypeError"
proof -
  obtain s ch where st: "st = (s, ch)" by (cases st)
  have i: "frameInv s0 s" "rowsInv s0 old s" using inv by (simp_all add: paintInv_def st)
  have gp: "gridArr s prev = old" using i(1) prev by (simp add: frameInv_def)
  have len: "length (gridArr s (nextRef s0)) = length old" using i(2) by (simp add: rowsInv_def)
  have b: "ty \<ge> 0 \<and> ty < rows config \<and> tx \<ge> 0 \<and> tx < cols config" and y: "int (length old) \<le> ty"
    using miss by (simp_all add: rowMissing_def inConfig_def)
  have "elemAt (gridArr s (nextRef s0)) ty = None" "elemAt (gridArr s prev) ty = None"
    using y len gp by (simp_all add: elemAt_def)
  then have "ownRow prev (nextRef s0) ty s = Inl TypeError" by (simp add: ownRow_def)
  then show ?thesis using b by (simp add: paintTarget_def st)
qed

text \<open>
  One pass of the loop body, for a target that does not throw, keeps the invariant and
  adds its target to the cells done if it passed the bounds check.
\<close>

lemma paintTarget_inv:
  assumes inv: "paintInv s0 old P D st"
    and alloc: "oldAllocated s0 old" and prev: "prev < nextRef s0" "gridArr s0 prev = old"
    and P: "P = paintResult paintRgb brushOpacity"
    and new: "(ty, tx) \<notin> D"
    and ok: "\<not> rowMissing config (length old) (ty, tx)"
  shows "\<exists>st'. paintTarget config paintRgb brushOpacity prev (nextRef s0) ty tx st = Inr st'
           \<and> paintInv s0 old P (if inConfig config (ty, tx) then insert (ty, tx) D else D) st'"
proof -
  obtain s ch where st: "st = (s, ch)" by (cases st)
  have i: "frameInv s0 s" "rowsInv s0 old s" "cellsInv s0 old P D s" "changedInv s0 old P D ch"
    using inv by (simp_all add: paintInv_def st)
  show ?thesis
  proof (cases "ty \<ge> 0 \<and> ty < rows config \<and> tx \<ge> 0 \<and> tx < cols config")
    case False
    then have "\<not> inConfig config (ty, tx)" by (simp add: inConfig_def)
    then show ?thesis
      using inv paintTarget_out_of_bounds [OF False] by (simp add: st)
  next
    case True
    then have ic: "inConfig config (ty, tx)" by (simp add: inConfig_def)
    define y x where "y = nat ty" and "x = nat tx"
    have t: "ty = int y" "tx = int x" using True by (simp_all add: y_def x_def)
    have y: "y < length old" using ok ic unfolding rowMissing_def t by simp
    obtain row s1 where o: "ownRow prev (nextRef s0) (int y) s = Inr (row, s1)"
      and i1: "frameInv s0 s1" "rowsInv s0 old s1" "cellsInv s0 old P D s1"
      and row: "gridArr s1 (nextRef s0) ! y = row" "nextRef s0 \<le> row"
      using ownRow_inv [OF i(1,2,3) alloc prev y] by blast
    have len: "length (rowArr s1 row) = length (rowArr s0 (old ! y))"
      using i1(2) y row(1) by (auto simp: rowsInv_def)
    show ?thesis
    proof (cases "x < length (rowArr s0 (old ! y))")
      case nox: False
      have e: "elemAt (rowArr s1 row) tx = None" using nox len by (simp add: t elemAt_int)
      have run: "paintTarget config paintRgb brushOpacity prev (nextRef s0) ty tx st = Inr (s1, ch)"
        using paintTarget_no_cell [OF True o [folded t] e] by (simp add: st)
      have nb: "(ty, tx) \<noteq> (int y', int x')"
        if "y' < length old" "x' < length (rowArr s0 (old ! y'))" for y' x'
        using that nox t by auto
      have "cellsInv s0 old P (insert (ty, tx) D) s1"
        using i1(3) nb by (intro cellsInv_insert_same) auto
      moreover have "changedInv s0 old P (insert (ty, tx) D) ch"
        using i(4) nb by (intro changedInv_insert_same) auto
      ultimately show ?thesis using i1(1,2) run ic by (simp add: paintInv_def)
    next
      case x: True
      have cur: "rowArr s1 row ! x = rowArr s0 (old ! y) ! x"
        using i1(3) y x new row(1) unfolding cellsInv_def t by fastforce
      have "rowArr s0 (old ! y) ! x < nextRef s0"
        using alloc y x unfolding oldAllocated_def by (meson nth_mem)
      then have px0: "pixelObj s1 (rowArr s1 row ! x) = pixelObj s0 (rowArr s0 (old ! y) ! x)"
        using i1(1) cur by (simp add: frameInv_def)
      have e: "elemAt (rowArr s1 row) tx = Some (rowArr s1 row ! x)"
        using x len by (simp add: t elemAt_int)
      note run = paintTarget_in_bounds [OF True o [folded t] e, of paintRgb brushOpacity ch,
          unfolded px0, folded P]
      show ?thesis
      proof (cases "P (pixelObj s0 (rowArr s0 (old ! y) ! x))")
        case None
        have same: "P (pixelObj s0 (rowArr s0 (old ! y') ! x')) = None"
          if "(ty, tx) = (int y', int x')" for y' x'
          using that None t by simp
        have "cellsInv s0 old P (insert (ty, tx) D) s1"
          using i1(3) same by (intro cellsInv_insert_same) auto
        moreover have "changedInv s0 old P (insert (ty, tx) D) ch"
          using i(4) same by (intro changedInv_insert_same) auto
        ultimately show ?thesis
          using i1(1,2) run None ic by (simp add: st paintInv_def)
      next
        case (Some px)
        define s2 where "s2 = (snd (newPixelObj px s1))\<lparr>rowArr := (rowArr (snd (newPixelObj px s1)))
                 (gridArr s1 (nextRef s0) ! y :=
                    (rowArr (snd (newPixelObj px s1)) (gridArr s1 (nextRef s0) ! y))[x := fst (newPixelObj px s1)])\<rparr>"
        have "frameInv s0 s2 \<and> rowsInv s0 old s2 \<and> cellsInv s0 old P (insert (int y, int x) D) s2"
          using writeCell_inv [OF i1 y x _ _ Some s2_def] row new t by simp
        moreover have "changedInv s0 old P (insert (int y, int x) D) True"
          using y x Some by (rule changedInv_insert_Some [of y old x s0 P px D])
        moreover have "paintTarget config paintRgb brushOpacity prev (nextRef s0) ty tx st = Inr (s2, True)"
          using run Some by (simp add: st s2_def row(1) x_def)
        ultimately show ?thesis using ic by (simp add: paintInv_def t)
      qed
    qed
  qed
qed

lemma forEach_append:
  "forEach body (xs @ ys) st =
     (case forEach body xs st of Inl e \<Rightarrow> Inl e | Inr st' \<Rightarrow> forEach body ys st')"
  by (induction xs arbitrary: st) (auto split: sum.splits)

lemma forEach_map: "forEach body (map h xs) st = forEach (\<lambda>x. body (h x)) xs st"
  by (induction xs arbitrary: st) (auto split: sum.splits)

lemma forEach_nested:
  "forEach (\<lambda>y. forEach (f y) xs) ys st = forEach (\<lambda>(y, x). f y x) (List.product ys xs) st"
proof (induction ys arbitrary: st)
  case Nil
  then show ?case by simp
next
  case (Cons y ys)
  have "forEach (\<lambda>(y, x). f y x) (map (Pair y) xs) st = forEach (f y) xs st" for st
    by (simp add: forEach_map)
  then show ?case using Cons by (simp add: forEach_append split: sum.splits)
qed

text \<open>
  The loops over a list of distinct targets: a TypeError if some target passes the bounds
  check at a row that the grid does not have, and otherwise the invariant for the targets
  that passed the bounds check.
\<close>

lemma paintLoop_inv:
  assumes inv: "paintInv s0 old P D st"
    and alloc: "oldAllocated s0 old" and prev: "prev < nextRef s0" "gridArr s0 prev = old"
    and P: "P = paintResult paintRgb brushOpacity"
    and ts: "distinct ts" "set ts \<inter> D = {}"
  shows "if \<exists>t \<in> set ts. rowMissing config (length old) t
         then forEach (\<lambda>(ty, tx). paintTarget config paintRgb brushOpacity prev (nextRef s0) ty tx) ts st
                = Inl TypeError
         else \<exists>st'. forEach (\<lambda>(ty, tx). paintTarget config paintRgb brushOpacity prev (nextRef s0) ty tx) ts st
                 = Inr st'
           \<and> paintInv s0 old P (D \<union> {t \<in> set ts. inConfig config t}) st'"
  using inv ts
proof (induction ts arbitrary: D st)
  case Nil
  then show ?case by simp
next
  case (Cons t ts)
  let ?body = "\<lambda>(ty, tx). paintTarget config paintRgb brushOpacity prev (nextRef s0) ty tx"
  obtain ty tx where t: "t = (ty, tx)" by (cases t)
  show ?case
  proof (cases "rowMissing config (length old) t")
    case True
    have "paintTarget config paintRgb brushOpacity prev (nextRef s0) ty tx st = Inl TypeError"
      using paintTarget_throws [OF Cons.prems(1) prev] True t by simp
    then have "forEach ?body (t # ts) st = Inl TypeError" by (simp add: t)
    moreover have "\<exists>t' \<in> set (t # ts). rowMissing config (length old) t'" using True by simp
    ultimately show ?thesis by (simp only: if_True)
  next
    case False
    define D' where "D' = (if inConfig config (ty, tx) then insert (ty, tx) D else D)"
    have "(ty, tx) \<notin> D" using Cons.prems(3) t by auto
    then obtain st1 where
      s1: "paintTarget config paintRgb brushOpacity prev (nextRef s0) ty tx st = Inr st1"
      and i1: "paintInv s0 old P D' st1"
      using paintTarget_inv [OF Cons.prems(1) alloc prev P _ False [unfolded t]]
      unfolding D'_def by blast
    have d: "distinct ts" "set ts \<inter> D' = {}"
      using Cons.prems(2,3) t by (auto simp: D'_def)
    have step: "forEach ?body (t # ts) st = forEach ?body ts st1" using s1 by (simp add: t)
    have ex: "(\<exists>t' \<in> set (t # ts). rowMissing config (length old) t')
                \<longleftrightarrow> (\<exists>t' \<in> set ts. rowMissing config (length old) t')"
      using False by simp
    have un: "D \<union> {t' \<in> set (t # ts). inConfig config t'} = D' \<union> {t' \<in> set ts. inConfig config t'}"
      by (auto simp: D'_def t)
    show ?thesis unfolding step ex un using Cons.IH [OF i1 d] .
  qed
qed

lemma brushTargets_set:
  "(y, x) \<in> set (brushTargets mouseY mouseX brushSize offset) \<longleftrightarrow>
     mouseY - offset \<le> y \<and> y < mouseY - offset + brushSize
     \<and> mouseX - offset \<le> x \<and> x < mouseX - offset + brushSize"
proof
  assume "(y, x) \<in> set (brushTargets mouseY mouseX brushSize offset)"
  then show "mouseY - offset \<le> y \<and> y < mouseY - offset + brushSize
     \<and> mouseX - offset \<le> x \<and> x < mouseX - offset + brushSize"
    by (auto simp: brushTargets_def)
next
  assume a: "mouseY - offset \<le> y \<and> y < mouseY - offset + brushSize
     \<and> mouseX - offset \<le> x \<and> x < mouseX - offset + brushSize"
  have "(y - (mouseY - offset), x - (mouseX - offset)) \<in> set (List.product [0..brushSize - 1] [0..brushSize - 1])"
    using a by simp
  then have "(\<lambda>(dy, dx). (mouseY - offset + dy, mouseX - offset + dx)) (y - (mouseY - offset), x - (mouseX - offset))
      \<in> set (brushTargets mouseY mouseX brushSize offset)"
    unfolding brushTargets_def set_map by (rule imageI)
  then show "(y, x) \<in> set (brushTargets mouseY mouseX brushSize offset)" by simp
qed

lemma distinct_brushTargets: "distinct (brushTargets mouseY mouseX brushSize offset)"
  unfolding brushTargets_def
  by (auto simp: distinct_map distinct_product inj_on_def)

lemma loops_brushTargets:
  "forEach (\<lambda>dy. forEach (\<lambda>dx. body (mouseY - offset + dy) (mouseX - offset + dx)) [0..brushSize - 1])
      [0..brushSize - 1] st
   = forEach (\<lambda>(ty, tx). body ty tx) (brushTargets mouseY mouseX brushSize offset) st"
  by (simp add: forEach_nested brushTargets_def forEach_map split_def)

lemma init_inv:
  assumes "gridAllocated s prev"
  shows "paintInv s (gridArr s prev) P {} (snd (newGridArr (gridArr s prev) s), False)"
proof -
  have "gridArr s prev ! y < nextRef s" if "y < length (gridArr s prev)" for y
    using assms that unfolding gridAllocated_def by (meson nth_mem)
  then have "\<not> nextRef s \<le> gridArr s prev ! y" if "y < length (gridArr s prev)" for y
    using that by (simp add: not_le)
  then show ?thesis
    by (auto simp: paintInv_def frameInv_def rowsInv_def cellsInv_def changedInv_def
        newGridArr_def)
qed

lemma setPixelsUpdater_targets:
  "setPixelsUpdater config mouseY mouseX brushSize offset paintRgb brushOpacity prev s =
     (case forEach (\<lambda>(ty, tx). paintTarget config paintRgb brushOpacity prev (nextRef s) ty tx)
             (brushTargets mouseY mouseX brushSize offset)
             (snd (newGridArr (gridArr s prev) s), False) of
        Inl e \<Rightarrow> Inl e
      | Inr (s1, changed) \<Rightarrow> Inr (if changed then nextRef s else prev, s1))"
proof -
  have e: "newGridArr (gridArr s prev) s = (nextRef s, snd (newGridArr (gridArr s prev) s))"
    by (simp add: newGridArr_def)
  show ?thesis
    unfolding setPixelsUpdater_def loops_brushTargets
    by (subst e) (simp only: Let_def prod.case)
qed

lemma updater_inv:
  assumes wf: "gridAllocated s prev"
  shows "if \<exists>t \<in> set (brushTargets mouseY mouseX brushSize offset). rowMissing config (length (gridArr s prev)) t
         then setPixelsUpdater config mouseY mouseX brushSize offset paintRgb brushOpacity prev s
                = Inl TypeError
         else \<exists>s' ch. setPixelsUpdater config mouseY mouseX brushSize offset paintRgb brushOpacity prev s
                   = Inr (if ch then nextRef s else prev, s')
           \<and> paintInv s (gridArr s prev) (paintResult paintRgb brushOpacity)
                {t \<in> set (brushTargets mouseY mouseX brushSize offset). inConfig config t} (s', ch)"
proof -
  let ?P = "paintResult paintRgb brushOpacity"
  let ?old = "gridArr s prev"
  let ?ts = "brushTargets mouseY mouseX brushSize offset"
  let ?body = "\<lambda>(ty, tx). paintTarget config paintRgb brushOpacity prev (nextRef s) ty tx"
  have alloc: "oldAllocated s ?old" using wf by (simp add: gridAllocated_def oldAllocated_def)
  have prev: "prev < nextRef s" using wf by (simp add: gridAllocated_def)
  note loop = paintLoop_inv [where P = ?P and paintRgb = paintRgb and brushOpacity = brushOpacity
        and ts = ?ts and D = "{}" and config = config,
        OF init_inv [OF wf] alloc prev refl refl distinct_brushTargets]
  show ?thesis
  proof (cases "\<exists>t \<in> set ?ts. rowMissing config (length ?old) t")
    case True
    then have "forEach ?body ?ts (snd (newGridArr ?old s), False) = Inl TypeError"
      using loop by simp
    then have "setPixelsUpdater config mouseY mouseX brushSize offset paintRgb brushOpacity prev s
                = Inl TypeError"
      unfolding setPixelsUpdater_targets by simp
    then show ?thesis using True by (simp only: if_True)
  next
    case False
    then obtain st' where run: "forEach ?body ?ts (snd (newGridArr ?old s), False) = Inr st'"
      and inv: "paintInv s ?old ?P ({} \<union> {t \<in> set ?ts. inConfig config t}) st'"
      using loop by auto
    obtain s' ch where st': "st' = (s', ch)" by (cases st')
    have r: "setPixelsUpdater config mouseY mouseX brushSize offset paintRgb brushOpacity prev s
            = Inr (if ch then nextRef s else prev, s')"
      unfolding setPixelsUpdater_targets run by (simp add: st')
    have "paintInv s ?old ?P {t \<in> set ?ts. inConfig config t} (s', ch)"
      using inv by (simp only: st' Un_empty_left)
    with r have "\<exists>s' ch. setPixelsUpdater config mouseY mouseX brushSize offset paintRgb brushOpacity prev s
                   = Inr (if ch then nextRef s else prev, s')
           \<and> paintInv s ?old ?P {t \<in> set ?ts. inConfig config t} (s', ch)"
      by blast
    then show ?thesis using False by (simp only: if_False)
  qed
qed

text \<open>
  The updater throws exactly when a target passes the bounds check at a row that the grid
  does not have.
\<close>

lemma updater_throws_iff:
  assumes "gridAllocated s prev"
  shows "setPixelsUpdater config mouseY mouseX brushSize offset paintRgb brushOpacity prev s = Inl TypeError
           \<longleftrightarrow> (\<exists>t \<in> set (brushTargets mouseY mouseX brushSize offset).
                  rowMissing config (length (gridArr s prev)) t)"
  using updater_inv [OF assms, of mouseY mouseX brushSize offset config paintRgb brushOpacity]
  by (auto split: if_splits)

text \<open>
  What the updater returns when it does not throw: the objects of the previous grid are
  as they were; the returned grid has the dimensions of the previous one; each cell holds
  the blended pixel if it is a target that passed the bounds check and whose hex changes,
  and its previous pixel object otherwise; and the returned grid is the previous grid
  itself exactly when no such target's hex changes.
\<close>

lemma updater_result:
  assumes wf: "gridAllocated s prev"
    and ok: "\<not> (\<exists>t \<in> set (brushTargets mouseY mouseX brushSize offset).
                  rowMissing config (length (gridArr s prev)) t)"
    and P: "P = paintResult paintRgb brushOpacity"
    and T: "T = {t \<in> set (brushTargets mouseY mouseX brushSize offset). inConfig config t}"
  shows "\<exists>g' s'. setPixelsUpdater config mouseY mouseX brushSize offset paintRgb brushOpacity prev s
                   = Inr (g', s')
     \<and> gridRefs s' prev = gridRefs s prev \<and> gridValue s' prev = gridValue s prev
     \<and> map length (gridRefs s' g') = map length (gridRefs s prev)
     \<and> (\<forall>y < length (gridRefs s prev). \<forall>x < length (gridRefs s prev ! y).
          gridValue s' g' ! y ! x = cellAfter P T y x (gridValue s prev ! y ! x)
          \<and> ((int y, int x) \<notin> T \<or> P (gridValue s prev ! y ! x) = None
                \<longrightarrow> gridRefs s' g' ! y ! x = gridRefs s prev ! y ! x))
     \<and> (g' = prev \<longleftrightarrow>
          (\<forall>y < length (gridRefs s prev). \<forall>x < length (gridRefs s prev ! y).
             (int y, int x) \<in> T \<longrightarrow> P (gridValue s prev ! y ! x) = None))"
proof -
  let ?old = "gridArr s prev" and ?np = "nextRef s"
  obtain s' ch where
    run: "setPixelsUpdater config mouseY mouseX brushSize offset paintRgb brushOpacity prev s
            = Inr (if ch then ?np else prev, s')"
    and inv: "paintInv s ?old P T (s', ch)"
    using updater_inv [OF wf, of mouseY mouseX brushSize offset config paintRgb brushOpacity] ok
    unfolding P T by (simp only: if_False) blast
  have fr: "\<And>a. a < ?np \<Longrightarrow> pixelObj s' a = pixelObj s a"
    "\<And>a. a < ?np \<Longrightarrow> rowArr s' a = rowArr s a"
    "\<And>a. a \<noteq> ?np \<Longrightarrow> gridArr s' a = gridArr s a"
    using inv by (simp_all add: paintInv_def frameInv_def)
  have rw: "length (gridArr s' ?np) = length ?old"
    "\<And>y. y < length ?old \<Longrightarrow> length (rowArr s' (gridArr s' ?np ! y)) = length (rowArr s (?old ! y))"
    using inv by (simp_all add: paintInv_def rowsInv_def)
  have cl: "\<And>y x. y < length ?old \<Longrightarrow> x < length (rowArr s (?old ! y)) \<Longrightarrow>
      (case (if (int y, int x) \<in> T then P (pixelObj s (rowArr s (?old ! y) ! x)) else None) of
           Some px \<Rightarrow> ?np \<le> rowArr s' (gridArr s' ?np ! y) ! x
                      \<and> rowArr s' (gridArr s' ?np ! y) ! x < nextRef s'
                      \<and> pixelObj s' (rowArr s' (gridArr s' ?np ! y) ! x) = px
         | None \<Rightarrow> rowArr s' (gridArr s' ?np ! y) ! x = rowArr s (?old ! y) ! x)"
    using inv by (simp add: paintInv_def cellsInv_def)
  have chg: "ch \<longleftrightarrow> (\<exists>y < length ?old. \<exists>x < length (rowArr s (?old ! y)).
                       (int y, int x) \<in> T \<and> P (pixelObj s (rowArr s (?old ! y) ! x)) \<noteq> None)"
    using inv by (simp add: paintInv_def changedInv_def)
  have prev: "prev < ?np" using wf by (simp add: gridAllocated_def)
  have rowlt: "?old ! y < ?np" if "y < length ?old" for y
    using wf that unfolding gridAllocated_def by (meson nth_mem)
  have pixlt: "rowArr s (?old ! y) ! x < ?np" if "y < length ?old" "x < length (rowArr s (?old ! y))" for y x
    using wf that unfolding gridAllocated_def by (meson nth_mem)
  have gp: "gridArr s' prev = ?old" using fr(3) prev by simp
  have rp: "rowArr s' (?old ! y) = rowArr s (?old ! y)" if "y < length ?old" for y
    using fr(2) rowlt that by simp
  have pp: "pixelObj s' (rowArr s (?old ! y) ! x) = pixelObj s (rowArr s (?old ! y) ! x)"
    if "y < length ?old" "x < length (rowArr s (?old ! y))" for y x
    using fr(1) pixlt that by simp
  have R: "gridRefs s' prev = gridRefs s prev"
    unfolding gridRefs_def gp using rp by (simp add: list_eq_iff_nth_eq)
  have V: "gridValue s' prev = gridValue s prev"
    unfolding gridValue_def R unfolding gridRefs_def using pp
    by (simp add: list_eq_iff_nth_eq)
  have len0: "length (gridRefs s prev) = length ?old" by (simp add: gridRefs_def)
  have row0: "gridRefs s prev ! y = rowArr s (?old ! y)" if "y < length ?old" for y
    using that by (simp add: gridRefs_def)
  have val0: "gridValue s prev ! y ! x = pixelObj s (rowArr s (?old ! y) ! x)"
    if "y < length ?old" "x < length (rowArr s (?old ! y))" for y x
    using that by (simp add: gridValue_def gridRefs_def)
  show ?thesis
  proof (cases ch)
    case False
    have none: "P (gridValue s prev ! y ! x) = None"
      if "y < length ?old" "x < length (rowArr s (?old ! y))" "(int y, int x) \<in> T" for y x
      using chg False that val0 by auto
    have "\<forall>y < length (gridRefs s prev). \<forall>x < length (gridRefs s prev ! y).
          gridValue s prev ! y ! x = cellAfter P T y x (gridValue s prev ! y ! x)"
      using none by (auto simp: cellAfter_def len0 row0)
    moreover have "\<forall>y < length (gridRefs s prev). \<forall>x < length (gridRefs s prev ! y).
             (int y, int x) \<in> T \<longrightarrow> P (gridValue s prev ! y ! x) = None"
      using none by (auto simp: len0 row0)
    ultimately show ?thesis using run False R V by simp
  next
    case True
    have lenN: "length (gridRefs s' ?np) = length ?old" using rw(1) by (simp add: gridRefs_def)
    have rowN: "gridRefs s' ?np ! y = rowArr s' (gridArr s' ?np ! y)" if "y < length ?old" for y
      using that rw(1) by (simp add: gridRefs_def)
    have dims: "map length (gridRefs s' ?np) = map length (gridRefs s prev)"
      using rw by (simp add: list_eq_iff_nth_eq gridRefs_def)
    have valN: "gridValue s' ?np ! y ! x = pixelObj s' (rowArr s' (gridArr s' ?np ! y) ! x)"
      if "y < length ?old" "x < length (rowArr s (?old ! y))" for y x
      using that rw by (simp add: gridValue_def gridRefs_def)
    have cell: "gridValue s' ?np ! y ! x = cellAfter P T y x (gridValue s prev ! y ! x)
          \<and> ((int y, int x) \<notin> T \<or> P (gridValue s prev ! y ! x) = None
                \<longrightarrow> gridRefs s' ?np ! y ! x = gridRefs s prev ! y ! x)"
      if "y < length ?old" "x < length (rowArr s (?old ! y))" for y x
    proof (cases "if (int y, int x) \<in> T then P (pixelObj s (rowArr s (?old ! y) ! x)) else None")
      case None
      then have "rowArr s' (gridArr s' ?np ! y) ! x = rowArr s (?old ! y) ! x"
        using cl [OF that] by simp
      then show ?thesis using None that pp [OF that]
        by (auto simp: valN val0 rowN row0 cellAfter_def split: if_splits)
    next
      case (Some px)
      then have "pixelObj s' (rowArr s' (gridArr s' ?np ! y) ! x) = px"
        using cl [OF that] by simp
      then show ?thesis using Some that
        by (auto simp: valN val0 cellAfter_def split: if_splits)
    qed
    have "\<not> (\<forall>y < length (gridRefs s prev). \<forall>x < length (gridRefs s prev ! y).
             (int y, int x) \<in> T \<longrightarrow> P (gridValue s prev ! y ! x) = None)"
      using chg True val0 by (auto simp: len0 row0)
    moreover have "?np \<noteq> prev" using prev by simp
    ultimately show ?thesis using run True R V dims cell by (auto simp: len0 row0)
  qed
qed
text \<open>
  The grid that the updater returns holds created references only, and so does the
  previous grid in the new store: \<open>gridAllocated\<close> is kept from one paint application to
  the next.
\<close>

lemma setPixelsUpdater_allocated:
  assumes wf: "gridAllocated s prev"
    and run: "setPixelsUpdater config mouseY mouseX brushSize offset paintRgb brushOpacity prev s
                = Inr (g', s')"
  shows "gridAllocated s' g' \<and> gridAllocated s' prev"
proof -
  let ?old = "gridArr s prev" and ?np = "nextRef s"
  let ?P = "paintResult paintRgb brushOpacity"
  let ?T = "{t \<in> set (brushTargets mouseY mouseX brushSize offset). inConfig config t}"
  have "\<exists>s'' ch. setPixelsUpdater config mouseY mouseX brushSize offset paintRgb brushOpacity prev s
                   = Inr (if ch then ?np else prev, s'') \<and> paintInv s ?old ?P ?T (s'', ch)"
  proof -
    have "\<not> (\<exists>t \<in> set (brushTargets mouseY mouseX brushSize offset).
                  rowMissing config (length ?old) t)"
      using updater_throws_iff [OF wf, of config mouseY mouseX brushSize offset paintRgb brushOpacity]
        run by simp
    then show ?thesis
      using updater_inv [OF wf, of mouseY mouseX brushSize offset config paintRgb brushOpacity]
      by (simp only: if_False)
  qed
  then obtain s'' ch where
    "setPixelsUpdater config mouseY mouseX brushSize offset paintRgb brushOpacity prev s
       = Inr (if ch then ?np else prev, s'')" "paintInv s ?old ?P ?T (s'', ch)"
    by blast
  then have g': "g' = (if ch then ?np else prev)" and inv: "paintInv s ?old ?P ?T (s', ch)"
    using run by simp_all
  have fr: "?np < nextRef s'"
    "\<And>a. a < ?np \<Longrightarrow> rowArr s' a = rowArr s a"
    "\<And>a. a \<noteq> ?np \<Longrightarrow> gridArr s' a = gridArr s a"
    using inv by (simp_all add: paintInv_def frameInv_def)
  have rw: "length (gridArr s' ?np) = length ?old"
    "\<And>y. y < length ?old \<Longrightarrow> gridArr s' ?np ! y = ?old ! y
            \<or> (?np \<le> gridArr s' ?np ! y \<and> gridArr s' ?np ! y < nextRef s')"
    "\<And>y. y < length ?old \<Longrightarrow> length (rowArr s' (gridArr s' ?np ! y)) = length (rowArr s (?old ! y))"
    using inv by (simp_all add: paintInv_def rowsInv_def)
  have cl: "\<And>y x. y < length ?old \<Longrightarrow> x < length (rowArr s (?old ! y)) \<Longrightarrow>
      (case (if (int y, int x) \<in> ?T then ?P (pixelObj s (rowArr s (?old ! y) ! x)) else None) of
           Some px \<Rightarrow> ?np \<le> rowArr s' (gridArr s' ?np ! y) ! x
                      \<and> rowArr s' (gridArr s' ?np ! y) ! x < nextRef s'
                      \<and> pixelObj s' (rowArr s' (gridArr s' ?np ! y) ! x) = px
         | None \<Rightarrow> rowArr s' (gridArr s' ?np ! y) ! x = rowArr s (?old ! y) ! x)"
    using inv by (simp add: paintInv_def cellsInv_def)
  have prev: "prev < ?np" using wf by (simp add: gridAllocated_def)
  have rowlt: "?old ! y < ?np" if "y < length ?old" for y
    using wf that unfolding gridAllocated_def by (meson nth_mem)
  have pixlt: "rowArr s (?old ! y) ! x < ?np" if "y < length ?old" "x < length (rowArr s (?old ! y))" for y x
    using wf that unfolding gridAllocated_def by (meson nth_mem)
  have old: "gridAllocated s' prev"
    unfolding gridAllocated_def
  proof (intro conjI ballI)
    show "prev < nextRef s'" using prev fr(1) by simp
  next
    fix row assume "row \<in> set (gridArr s' prev)"
    then obtain y where y: "y < length ?old" "row = ?old ! y"
      using fr(3) [of prev] prev by (auto simp: in_set_conv_nth)
    show "row < nextRef s'" using rowlt [OF y(1)] fr(1) y(2) by simp
    fix p assume "p \<in> set (rowArr s' row)"
    then obtain x where "x < length (rowArr s (?old ! y))" "p = rowArr s (?old ! y) ! x"
      using fr(2) [OF rowlt [OF y(1)]] y(2) by (auto simp: in_set_conv_nth)
    then show "p < nextRef s'" using pixlt [OF y(1)] fr(1) by fastforce
  qed
  have new: "gridAllocated s' ?np"
    unfolding gridAllocated_def
  proof (intro conjI ballI)
    show "?np < nextRef s'" by (rule fr(1))
  next
    fix row assume "row \<in> set (gridArr s' ?np)"
    then obtain y where y: "y < length ?old" "row = gridArr s' ?np ! y"
      using rw(1) by (auto simp: in_set_conv_nth)
    show "row < nextRef s'" using rw(2) [OF y(1)] rowlt [OF y(1)] fr(1) y(2) by auto
    fix p assume "p \<in> set (rowArr s' row)"
    then obtain x where x: "x < length (rowArr s (?old ! y))" "p = rowArr s' (gridArr s' ?np ! y) ! x"
      using rw(3) [OF y(1)] y(2) by (auto simp: in_set_conv_nth)
    show "p < nextRef s'"
      using cl [OF y(1) x(1)] pixlt [OF y(1) x(1)] fr(1) x(2)
      by (auto split: option.splits if_splits)
  qed
  show ?thesis using old new g' by simp
qed

lemma map_length_gridValue: "map length (gridValue s grid) = map length (gridRefs s grid)"
  by (simp add: gridValue_def)

lemma length_gridValue: "length (gridValue s grid) = length (gridRefs s grid)"
  by (simp add: gridValue_def)

lemma length_gridValue_row:
  "y < length (gridRefs s grid) \<Longrightarrow> length (gridValue s grid ! y) = length (gridRefs s grid ! y)"
  by (simp add: gridValue_def)

lemma grid_eqI:
  assumes "map length A = map length B"
    and "\<And>y x. y < length B \<Longrightarrow> x < length (B ! y) \<Longrightarrow> A ! y ! x = B ! y ! x"
  shows "A = B"
proof -
  have l: "length A = length B" using assms(1) by (metis length_map)
  have r: "length (A ! y) = length (B ! y)" if "y < length B" for y
    using assms(1) that l by (metis nth_map)
  show ?thesis using l r assms(2) by (simp add: list_eq_iff_nth_eq)
qed

lemma paintResult_None_iff:
  "paintResult paintRgb brushOpacity px = None \<longleftrightarrow> blendedHex paintRgb brushOpacity px = hex px"
  by (auto simp: paintResult_def blendedHex_def Let_def)

lemma enough_rows:
  assumes "rows config \<le> int n"
  shows "\<not> (\<exists>t \<in> set ts. rowMissing config n t)"
  using assms by (auto simp: rowMissing_def inConfig_def)

lemma length_gridValue_gridArr: "length (gridValue s grid) = length (gridArr s grid)"
  by (simp add: gridValue_def gridRefs_def)

text \<open>The updater on pixel values, when it does not throw.\<close>

lemma updater_value:
  assumes wf: "gridAllocated s prev"
    and ok: "\<not> (\<exists>t \<in> set (brushTargets mouseY mouseX brushSize offset).
                  rowMissing config (length (gridArr s prev)) t)"
  shows "\<exists>g' s'. setPixelsUpdater config mouseY mouseX brushSize offset paintRgb brushOpacity prev s
                   = Inr (g', s')
     \<and> map length (gridValue s' g') = map length (gridValue s prev)
     \<and> (\<forall>y < length (gridValue s prev). \<forall>x < length (gridValue s prev ! y).
          gridValue s' g' ! y ! x =
            (if mouseY - offset \<le> int y \<and> int y < mouseY - offset + brushSize
                \<and> mouseX - offset \<le> int x \<and> int x < mouseX - offset + brushSize
                \<and> int y < rows config \<and> int x < cols config
             then paintedPixel paintRgb brushOpacity (gridValue s prev ! y ! x)
             else gridValue s prev ! y ! x))"
proof -
  obtain g' s' where
    run: "setPixelsUpdater config mouseY mouseX brushSize offset paintRgb brushOpacity prev s = Inr (g', s')"
    and dims: "map length (gridRefs s' g') = map length (gridRefs s prev)"
    and cell: "\<forall>y < length (gridRefs s prev). \<forall>x < length (gridRefs s prev ! y).
          gridValue s' g' ! y ! x = cellAfter (paintResult paintRgb brushOpacity)
             {t \<in> set (brushTargets mouseY mouseX brushSize offset). inConfig config t}
             y x (gridValue s prev ! y ! x)"
    using updater_result [OF wf ok refl refl, of paintRgb brushOpacity]
    by blast
  have "gridValue s' g' ! y ! x =
            (if mouseY - offset \<le> int y \<and> int y < mouseY - offset + brushSize
                \<and> mouseX - offset \<le> int x \<and> int x < mouseX - offset + brushSize
                \<and> int y < rows config \<and> int x < cols config
             then paintedPixel paintRgb brushOpacity (gridValue s prev ! y ! x)
             else gridValue s prev ! y ! x)"
    if "y < length (gridValue s prev)" "x < length (gridValue s prev ! y)" for y x
    using cell that
    by (simp add: length_gridValue length_gridValue_row cellAfter_def brushTargets_set
        paintedPixel_def inConfig_def)
  then show ?thesis using run dims by (auto simp: map_length_gridValue)
qed


subsection \<open>The example grid\<close>

lemma blackStore_allocated: "gridAllocated blackStore 12"
  by (simp add: gridAllocated_def blackStore_def)

lemma blackStore_rows: "length (gridArr blackStore 12) = 3"
  by (simp add: blackStore_def)

lemma blackStore_enough_rows:
  "\<not> (\<exists>t \<in> set ts. rowMissing config3x3 (length (gridArr blackStore 12)) t)"
  by (rule enough_rows) (simp add: blackStore_rows config3x3_def)

lemma blackStore_value: "gridValue blackStore 12 = replicate 3 (replicate 3 blackPixel)"
  by (simp add: gridValue_def gridRefs_def blackStore_def numeral_3_eq_3)

lemma rgbToHex_white: "rgbToHex 255 255 255 = ''#ffffff''"
  by (simp add: rgbToHex_def toString16_def shiftLeft_def toInt32_def hexDigits.simps digitChar_def)

lemma rgbToHex_black: "rgbToHex 0 0 0 = ''#000000''"
  by (simp add: rgbToHex_def toString16_def shiftLeft_def toInt32_def hexDigits.simps digitChar_def)

lemma white_over_black:
  "paintedPixel \<lparr>r = 255, g = 255, b = 255\<rparr> 1 blackPixel = whitePixel"
  by (simp add: paintedPixel_def paintResult_def blendColors_def rgbToHex_white blackPixel_def
      whitePixel_def)

lemma black_over_black:
  "blendedHex \<lparr>r = 0, g = 0, b = 0\<rparr> (1 / 2) blackPixel = hex blackPixel"
  by (simp add: blendedHex_def blendColors_def mathRound_def toDouble_zero rgbToHex_black
      blackPixel_def)

lemma nth_black: "y < 3 \<Longrightarrow> x < 3 \<Longrightarrow> replicate 3 (replicate 3 blackPixel) ! y ! x = blackPixel"
  by simp

lemma blackStore_center:
  "\<exists>g' s'. setPixelsUpdater config3x3 1 1 3 1 \<lparr>r = 255, g = 255, b = 255\<rparr> 1 12 blackStore = Inr (g', s')
     \<and> gridValue s' g' = replicate 3 (replicate 3 whitePixel)"
proof -
  obtain g' s' where
    run: "setPixelsUpdater config3x3 1 1 3 1 \<lparr>r = 255, g = 255, b = 255\<rparr> 1 12 blackStore = Inr (g', s')"
    and dims: "map length (gridValue s' g') = map length (gridValue blackStore 12)"
    and cell: "\<forall>y < length (gridValue blackStore 12). \<forall>x < length (gridValue blackStore 12 ! y).
          gridValue s' g' ! y ! x =
            (if 1 - 1 \<le> int y \<and> int y < 1 - 1 + 3 \<and> 1 - 1 \<le> int x \<and> int x < 1 - 1 + 3
                \<and> int y < rows config3x3 \<and> int x < cols config3x3
             then paintedPixel \<lparr>r = 255, g = 255, b = 255\<rparr> 1 (gridValue blackStore 12 ! y ! x)
             else gridValue blackStore 12 ! y ! x)"
    using updater_value [OF blackStore_allocated blackStore_enough_rows,
        of 1 1 3 1 "\<lparr>r = 255, g = 255, b = 255\<rparr>" 1] by blast
  have "gridValue s' g' = replicate 3 (replicate 3 whitePixel)"
  proof (rule grid_eqI)
    show "map length (gridValue s' g') = map length (replicate 3 (replicate 3 whitePixel))"
      using dims by (simp add: blackStore_value)
  next
    fix y x assume "y < length (replicate 3 (replicate 3 whitePixel))"
      "x < length (replicate 3 (replicate 3 whitePixel) ! y)"
    then have yx: "y < 3" "x < 3" by simp_all
    then show "gridValue s' g' ! y ! x = replicate 3 (replicate 3 whitePixel) ! y ! x"
      using cell by (simp add: blackStore_value white_over_black config3x3_def)
  qed
  with run show ?thesis by blast
qed

subsection \<open>Clipping, no-op detection and dimensions\<close>

text \<open>
  C3 (as amended): on a grid that has at least as many rows as the configuration says (in
  particular on a grid of the configured dimensions), a paint application does not throw
  and returns a grid of the same dimensions in which exactly the cells
  \<open>(row0 - \<lfloor>N / 2\<rfloor> + dy, col0 - \<lfloor>N / 2\<rfloor> + dx)\<close>, for \<open>dy\<close> and \<open>dx\<close> in \<open>[0, N)\<close>, that lie
  within the configured rows and columns and in the grid are blended, and every other cell
  is as before: a target outside is skipped silently. With brush size 3 centred at cell
  \<open>(1, 1)\<close> of a 3 by 3 grid every target is in range and all nine cells are blended.
  (The grid is any grid in the store whose references are in use, \<open>gridAllocated\<close>.)
\<close>

theorem setPixelsUpdater_clips_to_grid:
  assumes "gridAllocated s prev" and "rows config \<le> int (length (gridValue s prev))"
  shows "\<exists>g' s'. setPixelsUpdater config mouseY mouseX brushSize (brushSize div 2) paintRgb brushOpacity
                    prev s = Inr (g', s')
     \<and> map length (gridValue s' g') = map length (gridValue s prev)
     \<and> (\<forall>y < length (gridValue s prev). \<forall>x < length (gridValue s prev ! y).
          gridValue s' g' ! y ! x =
            (if mouseY - brushSize div 2 \<le> int y \<and> int y < mouseY - brushSize div 2 + brushSize
                \<and> mouseX - brushSize div 2 \<le> int x \<and> int x < mouseX - brushSize div 2 + brushSize
                \<and> int y < rows config \<and> int x < cols config
             then paintedPixel paintRgb brushOpacity (gridValue s prev ! y ! x)
             else gridValue s prev ! y ! x))
     \<and> (rows config = 3 \<and> cols config = 3 \<and> map length (gridValue s prev) = [3, 3, 3]
          \<and> mouseY = 1 \<and> mouseX = 1 \<and> brushSize = 3 \<longrightarrow>
          gridValue s' g' = map (map (paintedPixel paintRgb brushOpacity)) (gridValue s prev))"
proof -
  have ok: "\<not> (\<exists>t \<in> set (brushTargets mouseY mouseX brushSize (brushSize div 2)).
                  rowMissing config (length (gridArr s prev)) t)"
    using assms(2) by (intro enough_rows) (simp add: length_gridValue_gridArr)
  obtain g' s' where
    run: "setPixelsUpdater config mouseY mouseX brushSize (brushSize div 2) paintRgb brushOpacity
            prev s = Inr (g', s')"
    and dims: "map length (gridValue s' g') = map length (gridValue s prev)"
    and cell: "\<forall>y < length (gridValue s prev). \<forall>x < length (gridValue s prev ! y).
          gridValue s' g' ! y ! x =
            (if mouseY - brushSize div 2 \<le> int y \<and> int y < mouseY - brushSize div 2 + brushSize
                \<and> mouseX - brushSize div 2 \<le> int x \<and> int x < mouseX - brushSize div 2 + brushSize
                \<and> int y < rows config \<and> int x < cols config
             then paintedPixel paintRgb brushOpacity (gridValue s prev ! y ! x)
             else gridValue s prev ! y ! x)"
    using updater_value [OF assms(1) ok, of paintRgb brushOpacity]
    by blast
  have "gridValue s' g' = map (map (paintedPixel paintRgb brushOpacity)) (gridValue s prev)"
    if sc: "rows config = 3 \<and> cols config = 3 \<and> map length (gridValue s prev) = [3, 3, 3]
          \<and> mouseY = 1 \<and> mouseX = 1 \<and> brushSize = 3"
  proof (rule grid_eqI)
    show "map length (gridValue s' g')
            = map length (map (map (paintedPixel paintRgb brushOpacity)) (gridValue s prev))"
      using dims by simp
  next
    fix y x
    assume a: "y < length (map (map (paintedPixel paintRgb brushOpacity)) (gridValue s prev))"
      "x < length (map (map (paintedPixel paintRgb brushOpacity)) (gridValue s prev) ! y)"
    then have y: "y < length (gridValue s prev)" and x: "x < length (gridValue s prev ! y)"
      by simp_all
    have ml: "map length (gridValue s prev) = [3, 3, 3]" using sc by simp
    have "length (gridValue s prev) = 3" using ml by (metis length_map length_Cons list.size(3) numeral_3_eq_3)
    moreover have "length (gridValue s prev ! y) = 3"
    proof -
      have "map length (gridValue s prev) ! y = length (gridValue s prev ! y)" using y by simp
      moreover have "y < 3" using y \<open>length (gridValue s prev) = 3\<close> by simp
      then have "[3, 3, 3::nat] ! y = 3" by (auto simp: less_Suc_eq numeral_3_eq_3)
      ultimately show ?thesis using ml by simp
    qed
    ultimately have "int y < 3" "int x < 3" using y x by simp_all
    then show "gridValue s' g' ! y ! x
                 = map (map (paintedPixel paintRgb brushOpacity)) (gridValue s prev) ! y ! x"
      using cell y x sc by simp
  qed
  then show ?thesis using run dims cell by blast
qed

theorem setPixelsUpdater_clips_to_grid_witness:
  "gridAllocated blackStore 12 \<and> rows config3x3 \<le> int (length (gridValue blackStore 12))
   \<and> (\<exists>g' s'. setPixelsUpdater config3x3 1 1 3 (3 div 2) \<lparr>r = 255, g = 255, b = 255\<rparr> 1 12 blackStore
                  = Inr (g', s')
          \<and> gridValue s' g' = [[whitePixel, whitePixel, whitePixel],
                                [whitePixel, whitePixel, whitePixel],
                                [whitePixel, whitePixel, whitePixel]])
   \<and> (\<exists>g' s'. setPixelsUpdater config3x3 0 0 3 (3 div 2) \<lparr>r = 255, g = 255, b = 255\<rparr> 1 12 blackStore
                  = Inr (g', s')
          \<and> gridValue s' g' = [[whitePixel, whitePixel, blackPixel],
                                [whitePixel, whitePixel, blackPixel],
                                [blackPixel, blackPixel, blackPixel]])"
proof -
  let ?white = "\<lparr>r = 255, g = 255, b = 255\<rparr> :: int RGB"
  have rw: "rows config3x3 \<le> int (length (gridValue blackStore 12))"
    by (simp add: config3x3_def blackStore_value)
  have sc: "rows config3x3 = 3 \<and> cols config3x3 = 3 \<and> map length (gridValue blackStore 12) = [3, 3, 3]
      \<and> (1::int) = 1 \<and> (1::int) = 1 \<and> (3::int) = 3"
    by (simp add: config3x3_def blackStore_value numeral_3_eq_3)
  obtain g1 s1 where
    r1: "setPixelsUpdater config3x3 1 1 3 (3 div 2) ?white 1 12 blackStore = Inr (g1, s1)"
    and v1: "gridValue s1 g1 = map (map (paintedPixel ?white 1)) (gridValue blackStore 12)"
    using setPixelsUpdater_clips_to_grid [OF blackStore_allocated rw, of 1 1 3 ?white 1] sc by blast
  have c1: "gridValue s1 g1 = [[whitePixel, whitePixel, whitePixel],
                                [whitePixel, whitePixel, whitePixel],
                                [whitePixel, whitePixel, whitePixel]]"
    unfolding v1 blackStore_value by (simp add: numeral_3_eq_3 white_over_black)
  obtain g2 s2 where
    r2: "setPixelsUpdater config3x3 0 0 3 (3 div 2) ?white 1 12 blackStore = Inr (g2, s2)"
    and d2: "map length (gridValue s2 g2) = map length (gridValue blackStore 12)"
    and v2: "\<forall>y < length (gridValue blackStore 12). \<forall>x < length (gridValue blackStore 12 ! y).
          gridValue s2 g2 ! y ! x =
            (if 0 - 3 div 2 \<le> int y \<and> int y < 0 - 3 div 2 + 3
                \<and> 0 - 3 div 2 \<le> int x \<and> int x < 0 - 3 div 2 + 3
                \<and> int y < rows config3x3 \<and> int x < cols config3x3
             then paintedPixel ?white 1 (gridValue blackStore 12 ! y ! x)
             else gridValue blackStore 12 ! y ! x)"
    using setPixelsUpdater_clips_to_grid [OF blackStore_allocated rw, of 0 0 3 ?white 1] by blast
  have c2: "gridValue s2 g2 = [[whitePixel, whitePixel, blackPixel],
                                [whitePixel, whitePixel, blackPixel],
                                [blackPixel, blackPixel, blackPixel]]"
  proof (rule grid_eqI)
    show "map length (gridValue s2 g2) = map length [[whitePixel, whitePixel, blackPixel],
                                [whitePixel, whitePixel, blackPixel],
                                [blackPixel, blackPixel, blackPixel]]"
      using d2 by (simp add: blackStore_value numeral_3_eq_3)
  next
    fix y x
    assume "y < length [[whitePixel, whitePixel, blackPixel],
                                [whitePixel, whitePixel, blackPixel],
                                [blackPixel, blackPixel, blackPixel]]"
      "x < length ([[whitePixel, whitePixel, blackPixel],
                                [whitePixel, whitePixel, blackPixel],
                                [blackPixel, blackPixel, blackPixel]] ! y)"
    then have yx: "y < 3" "x < 3" by (simp_all add: nth_Cons split: nat.splits)
    then have cases: "(y = 0 \<or> y = 1 \<or> y = 2) \<and> (x = 0 \<or> x = 1 \<or> x = 2)" by linarith
    have "gridValue s2 g2 ! y ! x =
            (if int y < 2 \<and> int x < 2 then whitePixel else blackPixel)"
      using v2 yx by (simp add: blackStore_value white_over_black config3x3_def)
    then show "gridValue s2 g2 ! y ! x = [[whitePixel, whitePixel, blackPixel],
                                [whitePixel, whitePixel, blackPixel],
                                [blackPixel, blackPixel, blackPixel]] ! y ! x"
      using cases by auto
  qed
  show ?thesis using blackStore_allocated rw r1 c1 r2 c2 by blast
qed

text \<open>
  C3 as stated, that brush size 3 centred at \<open>(1, 1)\<close> of a 3 by 3 grid touches only 4
  cells, fails on the black example grid painted white at full opacity: all nine cells
  change from black to white.
\<close>

theorem setPixelsUpdater_center_counterexample:
  "resultGrid (setPixelsUpdater config3x3 1 1 3 1 \<lparr>r = 255, g = 255, b = 255\<rparr> 1 12 blackStore)
     = Some [[whitePixel, whitePixel, whitePixel],
             [whitePixel, whitePixel, whitePixel],
             [whitePixel, whitePixel, whitePixel]]
   \<and> gridValue blackStore 12
     = [[blackPixel, blackPixel, blackPixel],
        [blackPixel, blackPixel, blackPixel],
        [blackPixel, blackPixel, blackPixel]]
   \<and> whitePixel \<noteq> blackPixel"
proof -
  obtain g' s' where
    "setPixelsUpdater config3x3 1 1 3 1 \<lparr>r = 255, g = 255, b = 255\<rparr> 1 12 blackStore = Inr (g', s')"
    "gridValue s' g' = replicate 3 (replicate 3 whitePixel)"
    using blackStore_center by blast
  then show ?thesis
    by (simp add: resultGrid_def blackStore_value numeral_3_eq_3 whitePixel_def blackPixel_def)
qed

text \<open>
  No-op detection when the updater does not throw: a cell of the grid whose blended hex
  equals its current hex keeps its pixel object (the same reference, with the same
  value); and if that is so for every target cell in the grid, the updater returns the
  previous grid itself, whose rows and pixels are as they were.
\<close>

lemma updater_noop_identity:
  assumes "gridAllocated s prev" and "rows config \<le> int (length (gridValue s prev))"
  shows "\<exists>g' s'. setPixelsUpdater config mouseY mouseX brushSize offset paintRgb brushOpacity prev s
                   = Inr (g', s')
     \<and> gridRefs s' prev = gridRefs s prev \<and> gridValue s' prev = gridValue s prev
     \<and> (\<forall>y < length (gridValue s prev). \<forall>x < length (gridValue s prev ! y).
          blendedHex paintRgb brushOpacity (gridValue s prev ! y ! x) = hex (gridValue s prev ! y ! x)
          \<longrightarrow> gridRefs s' g' ! y ! x = gridRefs s prev ! y ! x
              \<and> gridValue s' g' ! y ! x = gridValue s prev ! y ! x)
     \<and> ((\<forall>y < length (gridValue s prev). \<forall>x < length (gridValue s prev ! y).
            (int y, int x) \<in> set (brushTargets mouseY mouseX brushSize offset)
            \<longrightarrow> blendedHex paintRgb brushOpacity (gridValue s prev ! y ! x)
                  = hex (gridValue s prev ! y ! x))
          \<longrightarrow> g' = prev)"
proof -
  let ?P = "paintResult paintRgb brushOpacity"
  let ?T = "{t \<in> set (brushTargets mouseY mouseX brushSize offset). inConfig config t}"
  have ok: "\<not> (\<exists>t \<in> set (brushTargets mouseY mouseX brushSize offset).
                  rowMissing config (length (gridArr s prev)) t)"
    using assms(2) by (intro enough_rows) (simp add: length_gridValue_gridArr)
  obtain g' s' where
    run: "setPixelsUpdater config mouseY mouseX brushSize offset paintRgb brushOpacity prev s = Inr (g', s')"
    and fr: "gridRefs s' prev = gridRefs s prev" "gridValue s' prev = gridValue s prev"
    and cell: "\<forall>y < length (gridRefs s prev). \<forall>x < length (gridRefs s prev ! y).
          gridValue s' g' ! y ! x = cellAfter ?P ?T y x (gridValue s prev ! y ! x)
          \<and> ((int y, int x) \<notin> ?T \<or> ?P (gridValue s prev ! y ! x) = None
                \<longrightarrow> gridRefs s' g' ! y ! x = gridRefs s prev ! y ! x)"
    and same: "g' = prev \<longleftrightarrow>
          (\<forall>y < length (gridRefs s prev). \<forall>x < length (gridRefs s prev ! y).
             (int y, int x) \<in> ?T \<longrightarrow> ?P (gridValue s prev ! y ! x) = None)"
    using updater_result [OF assms(1) ok refl refl, of paintRgb brushOpacity]
    by blast
  have c: "gridRefs s' g' ! y ! x = gridRefs s prev ! y ! x
              \<and> gridValue s' g' ! y ! x = gridValue s prev ! y ! x"
    if "y < length (gridValue s prev)" "x < length (gridValue s prev ! y)"
      "blendedHex paintRgb brushOpacity (gridValue s prev ! y ! x) = hex (gridValue s prev ! y ! x)"
    for y x
  proof -
    have "?P (gridValue s prev ! y ! x) = None" using that(3) by (simp add: paintResult_None_iff)
    then show ?thesis using cell that(1,2)
      by (simp add: length_gridValue length_gridValue_row cellAfter_def)
  qed
  have "g' = prev"
    if "\<forall>y < length (gridValue s prev). \<forall>x < length (gridValue s prev ! y).
            (int y, int x) \<in> set (brushTargets mouseY mouseX brushSize offset)
            \<longrightarrow> blendedHex paintRgb brushOpacity (gridValue s prev ! y ! x)
                  = hex (gridValue s prev ! y ! x)"
    using that unfolding same by (simp add: length_gridValue length_gridValue_row paintResult_None_iff)
  then show ?thesis using run fr c by blast
qed

lemma hexToRgb_black: "hexToRgb ''#000000'' = Some \<lparr>r = 0, g = 0, b = 0\<rparr>"
proof -
  have "hexClass CHR ''0''" by (simp add: hexClass_def canonicalize_def)
  moreover have "digitValue CHR ''0'' = Some 0" by (simp add: digitValue_def canonicalize_def)
  ultimately show ?thesis by (simp add: hexToRgb_def hexPattern_def parseInt16_def)
qed

text \<open>
  C6 says that a paint application in which every target cell blends to its own hex
  returns the previous grid itself. The code does not when the grid has fewer rows than
  the configuration says (the row count was changed and the image is not yet resampled).
  On the black 3 by 3 example grid under a configuration of 5 rows, with black paint at
  opacity \<open>1 / 2\<close>, brush size 3 and the pointer at row 2, column 1, every cell of the grid
  blends to its own hex; but the targets of row 3 pass the bounds check, which is against
  the configuration, \<^verbatim>\<open>[...prev[3]]\<close> spreads \<^verbatim>\<open>undefined\<close>, and handleDraw throws a TypeError
  instead of returning the previous grid. (On a grid with at least as many rows as the
  configuration says the claim holds: \<open>updater_noop_identity\<close> above.)
\<close>

theorem handleDraw_noop_throws:
  "gridValue blackStore 12
     = [[blackPixel, blackPixel, blackPixel],
        [blackPixel, blackPixel, blackPixel],
        [blackPixel, blackPixel, blackPixel]]
   \<and> hexToRgb ''#000000'' = Some \<lparr>r = 0, g = 0, b = 0\<rparr>
   \<and> blendedHex \<lparr>r = 0, g = 0, b = 0\<rparr> (1 / 2) blackPixel = hex blackPixel
   \<and> handleDraw (config3x3\<lparr>rows := 5\<rparr>) Brush ''#000000'' 3 (1 / 2) True MouseMove 1 2 12 blackStore
     = Inl TypeError"
proof -
  have "(3, 0) \<in> set (brushTargets 2 1 3 1)" by (simp add: brushTargets_set)
  moreover have "rowMissing (config3x3\<lparr>rows := 5\<rparr>) (length (gridArr blackStore 12)) (3, 0)"
    by (simp add: rowMissing_def inConfig_def config3x3_def blackStore_rows)
  ultimately have "setPixelsUpdater (config3x3\<lparr>rows := 5\<rparr>) 2 1 3 1 \<lparr>r = 0, g = 0, b = 0\<rparr> (1 / 2) 12 blackStore
      = Inl TypeError"
    unfolding updater_throws_iff [OF blackStore_allocated] by blast
  then have "handleDraw (config3x3\<lparr>rows := 5\<rparr>) Brush ''#000000'' 3 (1 / 2) True MouseMove 1 2 12 blackStore
     = Inl TypeError"
    by (simp add: handleDraw_def hexToRgb_black blackStore_rows config3x3_def)
  then show ?thesis
    using black_over_black hexToRgb_black
    by (simp add: blackStore_value numeral_3_eq_3)
qed

text \<open>
  C10: for every tool, brush colour, brush size, opacity, event and pointer cell, and
  whatever the dimensions of the grid and of the configuration, handleDraw either throws
  a TypeError (and returns no grid) or returns a grid with the same number of rows, each
  of the same length as before; it does not throw on a grid that has at least as many
  rows as the configuration says. (The grid is any grid in the store whose references are
  in use, \<open>gridAllocated\<close>.)
\<close>

theorem handleDraw_keeps_dimensions:
  assumes "gridAllocated s pixels"
  shows "(handleDraw config activeTool brushColor brushSize brushOpacity isDrawing ev
            mouseX mouseY pixels s = Inl TypeError
          \<or> (\<exists>g' s'. handleDraw config activeTool brushColor brushSize brushOpacity isDrawing ev
                        mouseX mouseY pixels s = Inr (g', s')
               \<and> length (gridValue s' g') = length (gridValue s pixels)
               \<and> map length (gridValue s' g') = map length (gridValue s pixels)))
     \<and> (rows config \<le> int (length (gridValue s pixels))
          \<longrightarrow> handleDraw config activeTool brushColor brushSize brushOpacity isDrawing ev
                 mouseX mouseY pixels s \<noteq> Inl TypeError)"
proof -
  have u: "setPixelsUpdater config mouseY mouseX brushSize offset paintRgb brushOpacity pixels s
             = Inl TypeError
     \<or> (\<exists>g' s'. setPixelsUpdater config mouseY mouseX brushSize offset paintRgb brushOpacity pixels s
                     = Inr (g', s')
          \<and> length (gridValue s' g') = length (gridValue s pixels)
          \<and> map length (gridValue s' g') = map length (gridValue s pixels))" for offset paintRgb
  proof (cases "\<exists>t \<in> set (brushTargets mouseY mouseX brushSize offset).
                  rowMissing config (length (gridArr s pixels)) t")
    case True
    then show ?thesis using updater_throws_iff [OF assms] by blast
  next
    case False
    then show ?thesis
      using updater_value [OF assms False, of paintRgb brushOpacity] by (metis length_map)
  qed
  have v: "setPixelsUpdater config mouseY mouseX brushSize offset paintRgb brushOpacity pixels s
             \<noteq> Inl TypeError"
    if "rows config \<le> int (length (gridValue s pixels))" for offset paintRgb
    unfolding updater_throws_iff [OF assms]
    using that by (intro enough_rows) (simp add: length_gridValue_gridArr)
  have "handleDraw config activeTool brushColor brushSize brushOpacity isDrawing ev
            mouseX mouseY pixels s = Inl TypeError
          \<or> (\<exists>g' s'. handleDraw config activeTool brushColor brushSize brushOpacity isDrawing ev
                        mouseX mouseY pixels s = Inr (g', s')
               \<and> length (gridValue s' g') = length (gridValue s pixels)
               \<and> map length (gridValue s' g') = map length (gridValue s pixels))"
    unfolding handleDraw_def Let_def using u by (simp split: if_splits)
  moreover have "handleDraw config activeTool brushColor brushSize brushOpacity isDrawing ev
                 mouseX mouseY pixels s \<noteq> Inl TypeError"
    if "rows config \<le> int (length (gridValue s pixels))"
    unfolding handleDraw_def Let_def using v [OF that] by (simp split: if_splits)
  ultimately show ?thesis by blast
qed

theorem handleDraw_keeps_dimensions_witness:
  "gridAllocated blackStore 12 \<and> rows config3x3 \<le> int (length (gridValue blackStore 12))
   \<and> (\<exists>g' s'. handleDraw config3x3 Brush ''#8B0000'' 3 (1 / 2) False MouseDown 0 2 12 blackStore
                  = Inr (g', s')
          \<and> map length (gridValue s' g') = [3, 3, 3])"
proof -
  have rw: "rows config3x3 \<le> int (length (gridValue blackStore 12))"
    by (simp add: config3x3_def blackStore_value)
  obtain g' s' where
    "handleDraw config3x3 Brush ''#8B0000'' 3 (1 / 2) False MouseDown 0 2 12 blackStore = Inr (g', s')"
    "map length (gridValue s' g') = map length (gridValue blackStore 12)"
    using handleDraw_keeps_dimensions
            [OF blackStore_allocated, of config3x3 Brush "''#8B0000''" 3 "1 / 2" False MouseDown 0 2]
      rw
    by blast
  moreover have "map length (gridValue blackStore 12) = [3, 3, 3]"
    by (simp add: blackStore_value numeral_3_eq_3)
  ultimately show ?thesis using blackStore_allocated rw by auto
qed

end
